theory Spec2Isabelle
  imports Complex_Main "HOL-Library.Sublist" "HOL-Library.AList"
begin

section \<open>ChronoAI: the aggregation engine and the rename/recolor mutator\<close>

text \<open>
  The development embeds the \<open>displayProjects\<close> computation and \<open>handleUpdateProject\<close>
  of the ChronoAI application component.

  Modelling decisions.
  \<^item> A JavaScript object used as a dictionary (\<open>Record<string, V>\<close>) is the list of its own
    properties in insertion order, an association list. A read \<open>obj[k]\<close> finds the own
    property, or else the property every object inherits from \<open>Object.prototype\<close> under that
    name (\<open>getProp\<close>). The assignment \<open>obj[k] = v\<close> to an own or a new key is
    \<open>AList.update k v obj\<close> (it overwrites in place or appends), and an in-place change of
    an own \<open>obj[k]\<close> is \<open>AList.map_entry\<close>. \<open>Object.keys\<close> and \<open>Object.entries\<close> list the
    array-index keys in ascending numeric order first and then the other keys in insertion
    order (\<open>objectKeys\<close>, \<open>objectEntries\<close>).
  \<^item> A \<open>number\<close> is a value of any type with \<open>0\<close> and \<open>+\<close>. No law of arithmetic is built
    into the definitions, so what is proved of them without a further assumption on the type
    holds of binary64 addition too.
  \<^item> Strings are lists of characters. \<open>String.prototype.toLowerCase\<close> is a parameter of the
    definitions that use it and nothing is assumed about it.
  \<^item> \<open>undefined\<close> is \<open>None\<close>; the truthiness tests of the source (\<open>x ? a : b\<close>, \<open>a || b\<close>,
    \<open>!x\<close>) are written out: \<open>undefined\<close> and the empty string are falsy, objects and
    functions are truthy.
  \<^item> An uncaught \<open>TypeError\<close> is the result \<open>Inl TypeError\<close>.
\<close>

subsection \<open>Data model\<close>

record 'n AnalyzedEvent =
  title :: string
  durationHours :: 'n
  color :: string

record 'n CalendarImage =
  image_id :: string
  base64 :: string
  events :: "'n AnalyzedEvent list"

text \<open>The value type of \<open>userMappings\<close>: \<open>{ name: string; color: string }\<close>.\<close>

record UserMapping =
  name :: string
  color :: string

text \<open>The value type of \<open>aggregatedByOriginal\<close>: \<open>{ duration: number, color: string }\<close>.\<close>

record 'n OriginalAgg =
  duration :: 'n
  color :: string

text \<open>The value type of \<open>aggregatedByDisplay\<close>.\<close>

record 'n DisplayAgg =
  duration :: 'n
  color :: string
  originalNames :: "string list"

record 'n Project =
  name :: string
  duration :: 'n
  color :: string
  originalNames :: "string list"

datatype error = TypeError

type_synonym 'v dict = "(string \<times> 'v) list"

definition COLORS :: "string list" where
  "COLORS =
    [''#0088FE'', ''#00C49F'', ''#FFBB28'', ''#FF8042'', ''#AF19FF'', ''#FF1969'',
     ''#19D4FF'', ''#FFD700'', ''#32CD32'', ''#FF4500'', ''#9932CC'', ''#FF69B4'']"

subsection \<open>Objects as dictionaries\<close>

text \<open>The property names of \<open>Object.prototype\<close>, which every object literal inherits.\<close>

definition inheritedNames :: "string list" where
  "inheritedNames =
    [''constructor'', ''__defineGetter__'', ''__defineSetter__'', ''hasOwnProperty'',
     ''__lookupGetter__'', ''__lookupSetter__'', ''isPrototypeOf'', ''propertyIsEnumerable'',
     ''toString'', ''valueOf'', ''__proto__'', ''toLocaleString'']"

text \<open>
  The result of the read \<open>obj[k]\<close>: nothing, an own property, or the inherited property of
  that name (a built-in function, or \<open>Object.prototype\<close> itself for \<open>__proto__\<close>).
\<close>

datatype 'v lookup = Undefined | Own 'v | Inherited string

definition getProp :: "'v dict \<Rightarrow> string \<Rightarrow> 'v lookup" where
  "getProp obj k =
    (case map_of obj k of
       Some v \<Rightarrow> Own v
     | None \<Rightarrow> if k \<in> set inheritedNames then Inherited k else Undefined)"

text \<open>
  \<open>mapping?.name\<close> and \<open>mapping?.color\<close> for the result \<open>mapping\<close> of a read of
  \<open>userMappings\<close>. A built-in function has a \<open>name\<close>, its own name (\<open>Object\<close> for the
  constructor), and no \<open>color\<close>; \<open>Object.prototype\<close> has neither. Properties that an
  earlier run of the engine may have stored on these built-in objects are not tracked.
\<close>

definition propName :: "UserMapping lookup \<Rightarrow> string option" where
  "propName mapping =
    (case mapping of
       Undefined \<Rightarrow> None
     | Own m \<Rightarrow> Some (UserMapping.name m)
     | Inherited k \<Rightarrow>
         if k = ''__proto__'' then None
         else if k = ''constructor'' then Some ''Object''
         else Some k)"

definition propColor :: "UserMapping lookup \<Rightarrow> string option" where
  "propColor mapping =
    (case mapping of
       Undefined \<Rightarrow> None
     | Own m \<Rightarrow> Some (UserMapping.color m)
     | Inherited k \<Rightarrow> None)"

text \<open>
  An array index is the decimal numeral, without a sign or a leading zero, of a number up
  to \<open>2\<^sup>3\<^sup>2 - 2\<close>.
\<close>

definition isDigit :: "char \<Rightarrow> bool" where
  "isDigit c = ((48::int) \<le> of_char c \<and> of_char c \<le> (57::int))"

definition numericValue :: "string \<Rightarrow> int" where
  "numericValue s = foldl (\<lambda>n c. 10 * n + (of_char c - 48)) 0 s"

definition isArrayIndex :: "string \<Rightarrow> bool" where
  "isArrayIndex s =
    (s \<noteq> [] \<and> list_all isDigit s \<and> (s = ''0'' \<or> hd s \<noteq> CHR ''0'')
     \<and> numericValue s \<le> 4294967294)"

text \<open>\<open>Object.entries(obj)\<close> and \<open>Object.keys(obj)\<close>.\<close>

definition objectEntries :: "'v dict \<Rightarrow> (string \<times> 'v) list" where
  "objectEntries obj =
    sort_key (\<lambda>e. numericValue (fst e)) (filter (\<lambda>e. isArrayIndex (fst e)) obj)
      @ filter (\<lambda>e. \<not> isArrayIndex (fst e)) obj"

definition objectKeys :: "'v dict \<Rightarrow> string list" where
  "objectKeys obj = map fst (objectEntries obj)"

text \<open>
  The assignment \<open>obj[k] = v\<close>. For \<open>k = "__proto__"\<close> without an own property of that name
  the assignment reaches the inherited setter, which replaces the prototype of \<open>obj\<close> and
  adds no own property; the replaced prototype is not tracked.
\<close>

definition assignProp :: "string \<Rightarrow> 'v \<Rightarrow> 'v dict \<Rightarrow> 'v dict" where
  "assignProp k v obj =
    (if k = ''__proto__'' \<and> map_of obj k = None then obj else AList.update k v obj)"

subsection \<open>String helpers of the JavaScript runtime\<close>

text \<open>\<open>s.includes(sub)\<close>: \<open>sub\<close> occurs in \<open>s\<close> as a contiguous substring.\<close>

fun str_includes :: "string \<Rightarrow> string \<Rightarrow> bool" where
  "str_includes [] sub = (sub = [])"
| "str_includes (c # cs) sub = (prefix sub (c # cs) \<or> str_includes cs sub)"

text \<open>\<open>a || b\<close> for \<open>a: string | undefined\<close>.\<close>

definition js_or :: "string option \<Rightarrow> string \<Rightarrow> string" where
  "js_or a b = (case a of None \<Rightarrow> b | Some s \<Rightarrow> if s = [] then b else s)"

text \<open>\<open>!a\<close> for \<open>a: string | undefined\<close>.\<close>

definition js_not :: "string option \<Rightarrow> bool" where
  "js_not a = (case a of None \<Rightarrow> True | Some s \<Rightarrow> s = [])"

subsection \<open>Stage 1: keyword rules\<close>

text \<open>
  \<open>Object.keys(projectRules).find(keyword => event.title.toLowerCase().includes(keyword.toLowerCase()))\<close>
\<close>

definition matchingRuleKey ::
  "(string \<Rightarrow> string) \<Rightarrow> string dict \<Rightarrow> 'n AnalyzedEvent \<Rightarrow> string option" where
  "matchingRuleKey toLowerCase projectRules event =
    find (\<lambda>keyword. str_includes (toLowerCase (title event)) (toLowerCase keyword))
      (objectKeys projectRules)"

text \<open>
  \<open>matchingRuleKey ? { ...event, title: projectRules[matchingRuleKey] } : event\<close>.
  The test is on the key itself, so the empty keyword counts as no match. A key returned by
  \<open>find\<close> is an own key of \<open>projectRules\<close>, so the read finds an own property (lemma
  \<open>matchingRuleKey_lookup\<close>); the model leaves the event alone on that impossible branch.
\<close>

definition processEvent ::
  "(string \<Rightarrow> string) \<Rightarrow> string dict \<Rightarrow> 'n AnalyzedEvent \<Rightarrow> 'n AnalyzedEvent" where
  "processEvent toLowerCase projectRules event =
    (case matchingRuleKey toLowerCase projectRules event of
       None \<Rightarrow> event
     | Some key \<Rightarrow>
         if key = [] then event
         else (case map_of projectRules key of
                 None \<Rightarrow> event
               | Some target \<Rightarrow> event\<lparr>title := target\<rparr>))"

definition processedEvents ::
  "(string \<Rightarrow> string) \<Rightarrow> 'n CalendarImage list \<Rightarrow> string dict \<Rightarrow> 'n AnalyzedEvent list" where
  "processedEvents toLowerCase calendarImages projectRules =
    map (processEvent toLowerCase projectRules) (concat (map events calendarImages))"

subsection \<open>Stages 2 and 3: ignore filter and aggregation by original key\<close>

text \<open>
  The body of \<open>processedEvents.forEach(event => ...)\<close>. When the title is an inherited
  name, the test \<open>!aggregatedByOriginal[event.title]\<close> finds the built-in object, no group is
  created, and \<open>+=\<close> writes to the built-in object: the dictionary stays as it is. After
  the first statement the read is never \<open>undefined\<close> (lemma \<open>aggregateEvent_group\<close>).
\<close>

definition aggregateEvent ::
  "string list \<Rightarrow> ('n::{zero,plus}) OriginalAgg dict \<Rightarrow> 'n AnalyzedEvent \<Rightarrow> 'n OriginalAgg dict"
  where
  "aggregateEvent ignoredProjects agg event =
    (if title event \<in> set ignoredProjects then agg
     else
       let agg1 = (case getProp agg (title event) of
                     Undefined \<Rightarrow> AList.update (title event)
                                    \<lparr>OriginalAgg.duration = 0,
                                     OriginalAgg.color = AnalyzedEvent.color event\<rparr> agg
                   | Own _ \<Rightarrow> agg
                   | Inherited _ \<Rightarrow> agg)
       in (case getProp agg1 (title event) of
             Own _ \<Rightarrow>
               AList.map_entry (title event)
                 (\<lambda>d. d\<lparr>OriginalAgg.duration := OriginalAgg.duration d + durationHours event\<rparr>)
                 agg1
           | Inherited _ \<Rightarrow> agg1
           | Undefined \<Rightarrow> agg1))"

definition aggregatedByOriginal ::
  "string list \<Rightarrow> ('n::{zero,plus}) AnalyzedEvent list \<Rightarrow> 'n OriginalAgg dict" where
  "aggregatedByOriginal ignoredProjects evs = foldl (aggregateEvent ignoredProjects) [] evs"

subsection \<open>Stage 4: aggregation by display name\<close>

text \<open>\<open>mapping?.name || originalName\<close> with \<open>mapping = userMappings[originalName]\<close>.\<close>

definition displayNameOf :: "UserMapping dict \<Rightarrow> string \<Rightarrow> string" where
  "displayNameOf userMappings originalName =
    js_or (propName (getProp userMappings originalName)) originalName"

text \<open>\<open>mapping?.color || data.color\<close>.\<close>

definition displayColorOf :: "UserMapping dict \<Rightarrow> string \<Rightarrow> 'n OriginalAgg \<Rightarrow> string" where
  "displayColorOf userMappings originalName data =
    js_or (propColor (getProp userMappings originalName)) (OriginalAgg.color data)"

text \<open>
  The body of \<open>Object.entries(aggregatedByOriginal).forEach(([originalName, data]) => ...)\<close>.
  When the display name is an inherited name, \<open>aggregatedByDisplay[displayName]\<close> is the
  built-in object: no group is created, the writes of \<open>duration\<close> and \<open>color\<close> go to that
  object, and reading \<open>includes\<close> of its \<open>originalNames\<close>, which is \<open>undefined\<close>, throws.
\<close>

definition displayStep ::
  "UserMapping dict \<Rightarrow> ('n::{zero,plus}) DisplayAgg dict \<Rightarrow> string \<times> 'n OriginalAgg
    \<Rightarrow> error + 'n DisplayAgg dict" where
  "displayStep userMappings agg entry =
    (let originalName = fst entry;
         data = snd entry;
         displayName = displayNameOf userMappings originalName;
         displayColor = displayColorOf userMappings originalName data;
         agg1 = (case getProp agg displayName of
                   Undefined \<Rightarrow> AList.update displayName
                                  \<lparr>DisplayAgg.duration = 0, DisplayAgg.color = displayColor,
                                   DisplayAgg.originalNames = []\<rparr> agg
                 | Own _ \<Rightarrow> agg
                 | Inherited _ \<Rightarrow> agg)
     in (case getProp agg1 displayName of
           Own _ \<Rightarrow>
             (let agg2 = AList.map_entry displayName
                    (\<lambda>d. d\<lparr>DisplayAgg.duration :=
                              DisplayAgg.duration d + OriginalAgg.duration data\<rparr>)
                    agg1;
                  agg3 = AList.map_entry displayName
                    (\<lambda>d. d\<lparr>DisplayAgg.color := displayColor\<rparr>) agg2
              in Inr (AList.map_entry displayName
                    (\<lambda>d. if originalName \<in> set (DisplayAgg.originalNames d) then d
                         else d\<lparr>DisplayAgg.originalNames :=
                                   DisplayAgg.originalNames d @ [originalName]\<rparr>)
                    agg3))
         | Inherited _ \<Rightarrow> Inl TypeError
         | Undefined \<Rightarrow> Inl TypeError))"

text \<open>A \<open>forEach\<close> whose body may throw: the first exception ends the loop.\<close>

fun forEachE :: "('a \<Rightarrow> 'b \<Rightarrow> error + 'a) \<Rightarrow> 'a \<Rightarrow> 'b list \<Rightarrow> error + 'a" where
  "forEachE f a [] = Inr a"
| "forEachE f a (x # xs) = (case f a x of Inl e \<Rightarrow> Inl e | Inr a' \<Rightarrow> forEachE f a' xs)"

definition aggregatedByDisplay ::
  "UserMapping dict \<Rightarrow> ('n::{zero,plus}) OriginalAgg dict \<Rightarrow> error + 'n DisplayAgg dict" where
  "aggregatedByDisplay userMappings byOriginal =
    forEachE (displayStep userMappings) [] (objectEntries byOriginal)"

text \<open>\<open>Object.entries(aggregatedByDisplay).map(([name, data]) => ({ name, ...data }))\<close>.\<close>

definition toProject :: "string \<times> 'n DisplayAgg \<Rightarrow> 'n Project" where
  "toProject entry =
    \<lparr>name = fst entry, duration = DisplayAgg.duration (snd entry),
     color = DisplayAgg.color (snd entry),
     originalNames = DisplayAgg.originalNames (snd entry)\<rparr>"

text \<open>The Projects before Stage 5, the value of the variable \<open>finalProjects\<close>.\<close>

definition finalProjects ::
  "(string \<Rightarrow> string) \<Rightarrow> ('n::{zero,plus}) CalendarImage list \<Rightarrow> UserMapping dict
    \<Rightarrow> string list \<Rightarrow> string dict \<Rightarrow> error + 'n Project list" where
  "finalProjects toLowerCase calendarImages userMappings ignoredProjects projectRules =
    (case aggregatedByDisplay userMappings
            (aggregatedByOriginal ignoredProjects
              (processedEvents toLowerCase calendarImages projectRules)) of
       Inl e \<Rightarrow> Inl e
     | Inr byDisplay \<Rightarrow> Inr (map toProject (objectEntries byDisplay)))"

subsection \<open>Stage 5: palette colors\<close>

text \<open>
  \<open>while (colorIndex < COLORS.length && usedColors.has(COLORS[colorIndex])) colorIndex++\<close>;
  the result is the value of \<open>colorIndex\<close> after the loop.
\<close>

function skipUsed :: "string set \<Rightarrow> nat \<Rightarrow> nat" where
  "skipUsed usedColors colorIndex =
    (if colorIndex < length COLORS \<and> COLORS ! colorIndex \<in> usedColors
     then skipUsed usedColors (colorIndex + 1)
     else colorIndex)"
  by pat_completeness auto
termination
  by (relation "measure (\<lambda>(usedColors, colorIndex). length COLORS - colorIndex)") auto

declare skipUsed.simps [simp del]

text \<open>
  \<open>p.originalNames[0]\<close> used as a property key: on an empty array the read gives
  \<open>undefined\<close>, which as a key is the string \<open>"undefined"\<close>.
\<close>

definition firstOriginalName :: "'n Project \<Rightarrow> string" where
  "firstOriginalName p = (case originalNames p of [] \<Rightarrow> ''undefined'' | n # _ \<Rightarrow> n)"

text \<open>\<open>!userMappings[originalName]?.color && p.color === '#808080'\<close>.\<close>

definition needsColor :: "UserMapping dict \<Rightarrow> 'n Project \<Rightarrow> bool" where
  "needsColor userMappings p =
    (js_not (propColor (getProp userMappings (firstOriginalName p)))
     \<and> color p = ''#808080'')"

text \<open>
  \<open>finalProjects.map(p => ...)\<close> with the two variables the callback mutates,
  \<open>usedColors\<close> and \<open>colorIndex\<close>, passed along.
\<close>

fun assignColors ::
  "UserMapping dict \<Rightarrow> string set \<Rightarrow> nat \<Rightarrow> 'n Project list \<Rightarrow> 'n Project list" where
  "assignColors userMappings usedColors colorIndex [] = []"
| "assignColors userMappings usedColors colorIndex (p # ps) =
    (if needsColor userMappings p then
       (let i = skipUsed usedColors colorIndex in
        if i < length COLORS
        then p\<lparr>color := COLORS ! i\<rparr>
               # assignColors userMappings (insert (COLORS ! i) usedColors) (i + 1) ps
        else p # assignColors userMappings usedColors i ps)
     else p # assignColors userMappings usedColors colorIndex ps)"

definition displayProjects ::
  "(string \<Rightarrow> string) \<Rightarrow> ('n::{zero,plus}) CalendarImage list \<Rightarrow> UserMapping dict
    \<Rightarrow> string list \<Rightarrow> string dict \<Rightarrow> error + 'n Project list" where
  "displayProjects toLowerCase calendarImages userMappings ignoredProjects projectRules =
    (case finalProjects toLowerCase calendarImages userMappings ignoredProjects projectRules of
       Inl e \<Rightarrow> Inl e
     | Inr ps \<Rightarrow> Inr (assignColors userMappings (set (map color ps)) 0 ps))"

subsection \<open>The rename/recolor mutator\<close>

text \<open>
  The inner loop \<open>Object.keys(newMappings).forEach(key => ...)\<close>, one key at a time:
  an entry whose name is \<open>displayName\<close> gets the new color.
\<close>

definition recolorKey :: "string \<Rightarrow> string \<Rightarrow> UserMapping dict \<Rightarrow> string \<Rightarrow> UserMapping dict" where
  "recolorKey displayName newColor newMappings key =
    (case map_of newMappings key of
       None \<Rightarrow> newMappings
     | Some m \<Rightarrow>
         if UserMapping.name m = displayName
         then AList.update key (m\<lparr>UserMapping.color := newColor\<rparr>) newMappings
         else newMappings)"

text \<open>
  The body of \<open>originalNames.forEach(originalName => ...)\<close>. The display name is read
  from \<open>userMappings\<close>, the state the component rendered with, while the entries are
  written to \<open>newMappings\<close>, the copy of the state the updater received.
\<close>

definition updateStep ::
  "UserMapping dict \<Rightarrow> string \<Rightarrow> string \<Rightarrow> UserMapping dict \<Rightarrow> string \<Rightarrow> UserMapping dict" where
  "updateStep userMappings newName newColor newMappings originalName =
    (let displayName = displayNameOf userMappings originalName;
         newMappings1 =
           (if displayName = newName
            then foldl (recolorKey displayName newColor) newMappings (objectKeys newMappings)
            else newMappings)
     in assignProp originalName \<lparr>UserMapping.name = newName, UserMapping.color = newColor\<rparr>
          newMappings1)"

text \<open>
  \<open>handleUpdateProject\<close> as the state update it requests: \<open>prev\<close> is the state passed to
  the updater, \<open>origNames\<close> is the argument \<open>originalNames\<close>, and the result is the
  next state of \<open>userMappings\<close>.
\<close>

definition handleUpdateProject ::
  "UserMapping dict \<Rightarrow> UserMapping dict \<Rightarrow> string list \<Rightarrow> string \<Rightarrow> string \<Rightarrow> UserMapping dict" where
  "handleUpdateProject userMappings prev origNames newName newColor =
    foldl (updateStep userMappings newName newColor) prev origNames"

subsection \<open>Notions used to state the properties\<close>

text \<open>The distinct elements of a list, each at the place of its first occurrence.\<close>

definition firstOccurrences :: "'a list \<Rightarrow> 'a list" where
  "firstOccurrences xs = rev (remdups (rev xs))"

text \<open>
  The order in which \<open>Object.keys\<close> lists keys that were inserted in the order \<open>ks\<close>.
\<close>

definition keyOrder :: "string list \<Rightarrow> string list" where
  "keyOrder ks =
    sort_key numericValue (filter isArrayIndex ks) @ filter (\<lambda>k. \<not> isArrayIndex k) ks"

text \<open>
  What \<open>toLowerCase\<close> does on a string of ASCII characters: the letters \<open>A\<close> to \<open>Z\<close>, with
  the codes 65 to 90, become the letters 32 higher, which sets bit 5 of the code. It is
  used to evaluate the engine on inputs of ASCII strings.
\<close>

definition asciiLowerCase :: "string \<Rightarrow> string" where
  "asciiLowerCase s =
    map (\<lambda>c. if (65::nat) \<le> of_char c \<and> of_char c \<le> (90::nat)
             then (case c of Char b0 b1 b2 b3 b4 b5 b6 b7 \<Rightarrow> Char b0 b1 b2 b3 b4 True b6 b7)
             else c) s"

text \<open>
  The body of the Stage-4 loop where it does not throw: the group is created when the
  dictionary has no own entry for the display name, and then updated.
\<close>

definition displayStepOwn ::
  "UserMapping dict \<Rightarrow> ('n::{zero,plus}) DisplayAgg dict \<Rightarrow> string \<times> 'n OriginalAgg
    \<Rightarrow> 'n DisplayAgg dict" where
  "displayStepOwn um acc e =
    (let dn = displayNameOf um (fst e);
         dc = displayColorOf um (fst e) (snd e)
     in AList.map_entry dn
          (\<lambda>d. if fst e \<in> set (DisplayAgg.originalNames d) then d
               else d\<lparr>DisplayAgg.originalNames := DisplayAgg.originalNames d @ [fst e]\<rparr>)
          (AList.map_entry dn (\<lambda>d. d\<lparr>DisplayAgg.color := dc\<rparr>)
            (AList.map_entry dn
              (\<lambda>d. d\<lparr>DisplayAgg.duration :=
                        DisplayAgg.duration d + OriginalAgg.duration (snd e)\<rparr>)
              (case map_of acc dn of
                 None \<Rightarrow> AList.update dn
                           \<lparr>DisplayAgg.duration = 0, DisplayAgg.color = dc,
                            DisplayAgg.originalNames = []\<rparr> acc
               | Some _ \<Rightarrow> acc))))"

text \<open>
  The loop invariant of Stage 5: every palette entry before \<open>colorIndex\<close> is in use.
\<close>

definition paletteInv :: "string set \<Rightarrow> nat \<Rightarrow> bool" where
  "paletteInv U i = (\<forall>j<i. j < length COLORS \<longrightarrow> COLORS ! j \<in> U)"

text \<open>What the inner loop of \<open>handleUpdateProject\<close> does to one entry.\<close>

definition recolored :: "string \<Rightarrow> string \<Rightarrow> UserMapping option \<Rightarrow> UserMapping option" where
  "recolored displayName newColor =
    map_option (\<lambda>m. if UserMapping.name m = displayName
                      then m\<lparr>UserMapping.color := newColor\<rparr> else m)"

text \<open>Every entry named \<open>nn\<close> has the color \<open>nc\<close>.\<close>

definition allRecolored :: "string \<Rightarrow> string \<Rightarrow> UserMapping dict \<Rightarrow> bool" where
  "allRecolored nn nc nm =
    (\<forall>k m. map_of nm k = Some m \<and> UserMapping.name m = nn \<longrightarrow> UserMapping.color m = nc)"

text \<open>No entry has an empty name.\<close>

definition namesNonEmpty :: "UserMapping dict \<Rightarrow> bool" where
  "namesNonEmpty nm = (\<forall>k m. map_of nm k = Some m \<longrightarrow> UserMapping.name m \<noteq> [])"

section \<open>Properties\<close>

subsection \<open>Objects as dictionaries\<close>

lemma firstOccurrences_Nil [simp]: "firstOccurrences [] = []"
  by (simp add: firstOccurrences_def)

lemma firstOccurrences_snoc:
  "firstOccurrences (xs @ [x]) = (if x \<in> set xs then firstOccurrences xs else firstOccurrences xs @ [x])"
  by (simp add: firstOccurrences_def)

lemma set_firstOccurrences [simp]: "set (firstOccurrences xs) = set xs"
  by (simp add: firstOccurrences_def)

lemma distinct_firstOccurrences [simp]: "distinct (firstOccurrences xs)"
  by (simp add: firstOccurrences_def)

lemma firstOccurrences_distinct: "distinct xs \<Longrightarrow> firstOccurrences xs = xs"
  by (simp add: firstOccurrences_def distinct_remdups_id)

lemma keys_map_entry [simp]: "map fst (AList.map_entry k f al) = map fst al"
  by (induction al) auto

lemma map_of_None_keys: "map_of al k = None \<longleftrightarrow> k \<notin> set (map fst al)"
  by (simp add: map_of_eq_None_iff)

lemma set_objectEntries [simp]: "set (objectEntries d) = set d"
  by (auto simp: objectEntries_def)

lemma set_objectKeys [simp]: "set (objectKeys d) = set (map fst d)"
  by (simp add: objectKeys_def)

lemma map_fst_insort:
  "map fst (insort_key (\<lambda>e. f (fst e)) x xs) = insort_key f (fst x) (map fst xs)"
  by (induction xs) auto

lemma map_fst_sort:
  "map fst (sort_key (\<lambda>e. f (fst e)) xs) = sort_key f (map fst xs)"
  by (induction xs) (simp_all add: map_fst_insort)

lemma objectKeys_keyOrder: "objectKeys d = keyOrder (map fst d)"
  by (simp add: objectKeys_def objectEntries_def keyOrder_def map_fst_sort filter_map comp_def)

lemma set_keyOrder [simp]: "set (keyOrder ks) = set ks"
  by (auto simp: keyOrder_def)

lemma distinct_keyOrder: "distinct ks \<Longrightarrow> distinct (keyOrder ks)"
  by (auto simp: keyOrder_def)

lemma keyOrder_plain: "\<forall>k \<in> set ks. \<not> isArrayIndex k \<Longrightarrow> keyOrder ks = ks"
  by (simp add: keyOrder_def filter_empty_conv filter_id_conv)

lemma distinct_objectKeys: "distinct (map fst d) \<Longrightarrow> distinct (objectKeys d)"
  by (simp add: objectKeys_keyOrder distinct_keyOrder)

lemma map_of_filter_key: "map_of xs k = map_of (filter (\<lambda>e. fst e = k) xs) k"
  by (induction xs) auto

lemma filter_key_sort:
  "filter (\<lambda>e. fst e = k) (sort_key (\<lambda>e. f (fst e)) xs) = filter (\<lambda>e. fst e = k) xs"
proof -
  have "filter (\<lambda>e. fst e = k) (sort_key (\<lambda>e. f (fst e)) xs)
      = filter (\<lambda>e. fst e = k) (filter (\<lambda>e. f (fst e) = f k) (sort_key (\<lambda>e. f (fst e)) xs))"
    by (simp add: conj_commute cong: conj_cong)
  also have "\<dots> = filter (\<lambda>e. fst e = k) (filter (\<lambda>e. f (fst e) = f k) xs)"
    by (simp only: sort_key_stable)
  also have "\<dots> = filter (\<lambda>e. fst e = k) xs"
    by (simp add: conj_commute cong: conj_cong)
  finally show ?thesis .
qed

lemma filter_key_objectEntries:
  "filter (\<lambda>e. fst e = k) (objectEntries d) = filter (\<lambda>e. fst e = k) d"
proof (cases "isArrayIndex k")
  case True
  then have "filter (\<lambda>e. fst e = k) (filter (\<lambda>e. \<not> isArrayIndex (fst e)) d) = []"
    by (auto simp: filter_empty_conv)
  moreover from True have "filter (\<lambda>e. fst e = k) (filter (\<lambda>e. isArrayIndex (fst e)) d)
      = filter (\<lambda>e. fst e = k) d"
    by (auto intro: filter_cong)
  ultimately show ?thesis
    by (simp only: objectEntries_def filter_append filter_key_sort append_Nil2)
next
  case False
  then have "filter (\<lambda>e. fst e = k) (filter (\<lambda>e. isArrayIndex (fst e)) d) = []"
    by (auto simp: filter_empty_conv)
  moreover from False have "filter (\<lambda>e. fst e = k) (filter (\<lambda>e. \<not> isArrayIndex (fst e)) d)
      = filter (\<lambda>e. fst e = k) d"
    by (auto intro: filter_cong)
  ultimately show ?thesis
    by (simp only: objectEntries_def filter_append filter_key_sort append_Nil)
qed

lemma map_of_objectEntries [simp]: "map_of (objectEntries d) k = map_of d k"
  using map_of_filter_key [of "objectEntries d" k] map_of_filter_key [of d k]
  by (simp only: filter_key_objectEntries)

lemma getProp_Own: "getProp obj k = Own v \<longleftrightarrow> map_of obj k = Some v"
  by (auto simp: getProp_def split: option.splits)

lemma getProp_Undefined:
  "getProp obj k = Undefined \<longleftrightarrow> map_of obj k = None \<and> k \<notin> set inheritedNames"
  by (auto simp: getProp_def split: option.splits)

lemma getProp_Inherited:
  "getProp obj k = Inherited n \<longleftrightarrow> map_of obj k = None \<and> k \<in> set inheritedNames \<and> n = k"
  by (auto simp: getProp_def split: option.splits)

subsection \<open>Stage 1\<close>

lemma find_keys_pair:
  "find P (map fst rules) = map_option fst (find (\<lambda>r. P (fst r)) rules)"
  by (induction rules) auto

lemma find_first_lookup:
  "find (\<lambda>r. P (fst r)) rules = Some r \<Longrightarrow> map_of rules (fst r) = Some (snd r)"
proof (induction rules)
  case Nil
  then show ?case by simp
next
  case (Cons a rules)
  show ?case
  proof (cases "P (fst a)")
    case True
    with Cons.prems show ?thesis by simp
  next
    case False
    with Cons.prems have found: "find (\<lambda>r. P (fst r)) rules = Some r" by simp
    then have "P (fst r)" by (auto simp: find_Some_iff)
    with False have "fst a \<noteq> fst r" by auto
    with Cons.IH [OF found] show ?thesis by simp
  qed
qed

lemma find_Some_set: "find P xs = Some x \<Longrightarrow> x \<in> set xs \<and> P x"
  by (induction xs) (auto split: if_splits)

lemma matchingRuleKey_lookup:
  "matchingRuleKey lc rules e = Some k \<Longrightarrow> \<exists>t. map_of rules k = Some t"
  unfolding matchingRuleKey_def objectKeys_def find_keys_pair
  by (auto dest: find_first_lookup)

lemma processEvent_find:
  "processEvent lc rules e =
    (case find (\<lambda>r. str_includes (lc (title e)) (lc (fst r))) (objectEntries rules) of
       None \<Rightarrow> e
     | Some r \<Rightarrow> if fst r = [] then e else e\<lparr>title := snd r\<rparr>)"
proof (cases "find (\<lambda>r. str_includes (lc (title e)) (lc (fst r))) (objectEntries rules)")
  case None
  then show ?thesis
    by (simp add: processEvent_def matchingRuleKey_def objectKeys_def find_keys_pair)
next
  case (Some r)
  from find_first_lookup [OF Some] have "map_of rules (fst r) = Some (snd r)" by simp
  with Some show ?thesis
    by (simp add: processEvent_def matchingRuleKey_def objectKeys_def find_keys_pair)
qed

text \<open>
  C6. The keywords of the rule mapping are not empty: the rule form stores a rule only
  after \<open>keyword.trim()\<close> has passed the test for the empty string. The rules are scanned in
  the iteration order of the rule mapping, the order of \<open>Object.keys\<close>, for the first rule
  whose keyword occurs in the title, both in lower case. If there is one, the event gets
  that rule's target as its title; if there is none, the event is returned as it is.
\<close>

theorem rule_resolution_first_match:
  assumes "\<forall>k \<in> set (map fst rules). k \<noteq> []"
  shows "processEvent lc rules e =
    (case find (\<lambda>r. str_includes (lc (title e)) (lc (fst r))) (objectEntries rules) of
       None \<Rightarrow> e
     | Some r \<Rightarrow> e\<lparr>title := snd r\<rparr>)"
proof (cases "find (\<lambda>r. str_includes (lc (title e)) (lc (fst r))) (objectEntries rules)")
  case None
  then show ?thesis by (simp add: processEvent_find)
next
  case (Some r)
  then have "r \<in> set (objectEntries rules)" by (auto dest: find_Some_set)
  with assms have "fst r \<noteq> []" by auto
  with Some show ?thesis by (simp add: processEvent_find)
qed

theorem rule_resolution_first_match_witness:
  "processEvent asciiLowerCase [(''class'', ''School''), (''Portugues'', ''Idiomas'')]
     \<lparr>title = ''Portugues Class'', durationHours = 2 :: int, AnalyzedEvent.color = ''#808080''\<rparr>
   = \<lparr>title = ''School'', durationHours = 2, AnalyzedEvent.color = ''#808080''\<rparr>"
proof -
  have h: "\<forall>k \<in> set (map fst [(''class'', ''School''), (''Portugues'', ''Idiomas'')]). k \<noteq> []"
    by simp
  show ?thesis
    using rule_resolution_first_match [OF h, of asciiLowerCase
      "\<lparr>title = ''Portugues Class'', durationHours = 2 :: int, AnalyzedEvent.color = ''#808080''\<rparr>"]
    by (simp add: objectEntries_def isArrayIndex_def isDigit_def numericValue_def asciiLowerCase_def)
qed

text \<open>
  C7 (as amended). When every rule target is itself left unchanged by rule resolution,
  resolving the already resolved events a second time changes nothing.
\<close>

theorem rule_resolution_idempotent:
  fixes evs :: "'n AnalyzedEvent list"
  assumes "\<forall>r \<in> set rules. \<forall>e :: 'n AnalyzedEvent.
      processEvent lc rules (e\<lparr>title := snd r\<rparr>) = e\<lparr>title := snd r\<rparr>"
  shows "map (processEvent lc rules) (map (processEvent lc rules) evs) = map (processEvent lc rules) evs"
proof -
  have "processEvent lc rules (processEvent lc rules e) = processEvent lc rules e"
    for e :: "'n AnalyzedEvent"
  proof (cases "find (\<lambda>r. str_includes (lc (title e)) (lc (fst r))) (objectEntries rules)")
    case None
    then have "processEvent lc rules e = e" by (simp add: processEvent_find)
    then show ?thesis by simp
  next
    case (Some r)
    then have "r \<in> set (objectEntries rules)" by (auto dest: find_Some_set)
    then have r: "r \<in> set rules" by simp
    show ?thesis
    proof (cases "fst r = []")
      case True
      with Some have "processEvent lc rules e = e" by (simp add: processEvent_find)
      then show ?thesis by simp
    next
      case False
      with Some have "processEvent lc rules e = e\<lparr>title := snd r\<rparr>"
        by (simp add: processEvent_find)
      with assms r show ?thesis by simp
    qed
  qed
  then show ?thesis by simp
qed

theorem rule_resolution_idempotent_witness:
  "map (processEvent asciiLowerCase [(''Portugues'', ''Idiomas'')])
     (map (processEvent asciiLowerCase [(''Portugues'', ''Idiomas'')])
      [\<lparr>title = ''Portugues Class'', durationHours = 2 :: int, AnalyzedEvent.color = ''#808080''\<rparr>])
   = [\<lparr>title = ''Idiomas'', durationHours = 2, AnalyzedEvent.color = ''#808080''\<rparr>]"
proof -
  have h: "\<forall>r \<in> set [(''Portugues'', ''Idiomas'')]. \<forall>e :: int AnalyzedEvent.
      processEvent asciiLowerCase [(''Portugues'', ''Idiomas'')] (e\<lparr>title := snd r\<rparr>)
        = e\<lparr>title := snd r\<rparr>"
    by (simp add: processEvent_def matchingRuleKey_def objectKeys_def objectEntries_def
          isArrayIndex_def isDigit_def numericValue_def asciiLowerCase_def)
  show ?thesis
    using rule_resolution_idempotent [OF h,
      of "[\<lparr>title = ''Portugues Class'', durationHours = 2 :: int, AnalyzedEvent.color = ''#808080''\<rparr>]"]
    by (simp add: processEvent_def matchingRuleKey_def objectKeys_def objectEntries_def
          isArrayIndex_def isDigit_def numericValue_def asciiLowerCase_def)
qed

text \<open>
  C7 as stated fails when a target contains a keyword: with the rules \<open>a \<mapsto> b\<close> and
  \<open>b \<mapsto> c\<close> the title \<open>"a"\<close> resolves to \<open>"b"\<close>, and resolving that once more gives \<open>"c"\<close>.
\<close>

theorem chained_rules_counterexample:
  "map title (map (processEvent asciiLowerCase [(''a'', ''b''), (''b'', ''c'')])
      [\<lparr>title = ''a'', durationHours = 1 :: int, AnalyzedEvent.color = ''#808080''\<rparr>]) = [''b'']
   \<and> map title (map (processEvent asciiLowerCase [(''a'', ''b''), (''b'', ''c'')])
        (map (processEvent asciiLowerCase [(''a'', ''b''), (''b'', ''c'')])
          [\<lparr>title = ''a'', durationHours = 1 :: int, AnalyzedEvent.color = ''#808080''\<rparr>]))
      = [''c'']"
  by (simp add: processEvent_def matchingRuleKey_def objectKeys_def objectEntries_def
        isArrayIndex_def isDigit_def numericValue_def asciiLowerCase_def)

subsection \<open>Stage 3: the dictionary built from the events\<close>

text \<open>The step adds a group only for a title that is neither ignored nor inherited.\<close>

lemma aggregateEvent_cases:
  "aggregateEvent ign acc e =
    (if title e \<in> set ign \<or> (map_of acc (title e) = None \<and> title e \<in> set inheritedNames)
     then acc
     else AList.map_entry (title e)
            (\<lambda>d. d\<lparr>OriginalAgg.duration := OriginalAgg.duration d + durationHours e\<rparr>)
            (case map_of acc (title e) of
               None \<Rightarrow> AList.update (title e)
                         \<lparr>OriginalAgg.duration = 0,
                          OriginalAgg.color = AnalyzedEvent.color e\<rparr> acc
             | Some _ \<Rightarrow> acc))"
  by (cases "map_of acc (title e)")
     (simp_all add: aggregateEvent_def getProp_def AList.update_conv' Let_def)

text \<open>After the first statement of the loop body the read is not \<open>undefined\<close>.\<close>

lemma aggregateEvent_group:
  "getProp (case getProp acc t of
              Undefined \<Rightarrow> AList.update t v acc
            | Own _ \<Rightarrow> acc
            | Inherited _ \<Rightarrow> acc) t \<noteq> Undefined"
  by (cases "map_of acc t") (simp_all add: getProp_def AList.update_conv')

lemma keys_aggregateEvent:
  "map fst (aggregateEvent ign acc e) =
    (if title e \<in> set ign \<or> title e \<in> set (map fst acc) \<or> title e \<in> set inheritedNames
     then map fst acc
     else map fst acc @ [title e])"
proof (cases "map_of acc (title e)")
  case None
  then have "title e \<notin> set (map fst acc)" by (simp add: map_of_None_keys)
  with None show ?thesis by (simp add: aggregateEvent_cases AList.update_keys)
next
  case (Some d)
  then have "title e \<in> set (map fst acc)"
    using map_of_None_keys [of acc "title e"] by simp
  with Some show ?thesis by (simp add: aggregateEvent_cases)
qed

lemma map_of_aggregateEvent:
  "map_of (aggregateEvent ign acc e) k =
    (if title e \<in> set ign \<or> k \<noteq> title e then map_of acc k
     else (case map_of acc k of
             None \<Rightarrow> if k \<in> set inheritedNames then None
                     else Some \<lparr>OriginalAgg.duration = 0 + durationHours e,
                                OriginalAgg.color = AnalyzedEvent.color e\<rparr>
           | Some d \<Rightarrow> Some (d\<lparr>OriginalAgg.duration := OriginalAgg.duration d + durationHours e\<rparr>)))"
  by (cases "map_of acc (title e)")
     (simp_all add: aggregateEvent_cases AList.map_of_map_entry AList.update_conv')

lemma aggregatedByOriginal_snoc:
  "aggregatedByOriginal ign (evs @ [e]) = aggregateEvent ign (aggregatedByOriginal ign evs) e"
  by (simp add: aggregatedByOriginal_def)

lemma keys_aggregatedByOriginal:
  "map fst (aggregatedByOriginal ign evs) =
    firstOccurrences (map title
      (filter (\<lambda>e. title e \<notin> set ign \<and> title e \<notin> set inheritedNames) evs))"
proof (induction evs rule: rev_induct)
  case Nil
  show ?case by (simp add: aggregatedByOriginal_def)
next
  case (snoc e evs)
  show ?case
    by (auto simp: aggregatedByOriginal_snoc keys_aggregateEvent snoc.IH firstOccurrences_snoc)
qed

lemma distinct_keys_aggregatedByOriginal: "distinct (map fst (aggregatedByOriginal ign evs))"
  by (simp add: keys_aggregatedByOriginal)


lemma map_of_aggregatedByOriginal:
  "map_of (aggregatedByOriginal ign evs) k =
    (let es = filter (\<lambda>e. title e = k \<and> title e \<notin> set ign) evs
     in if es = [] \<or> k \<in> set inheritedNames then None
        else Some \<lparr>OriginalAgg.duration = foldl (+) 0 (map durationHours es),
                   OriginalAgg.color = AnalyzedEvent.color (hd es)\<rparr>)"
proof (induction evs arbitrary: k rule: rev_induct)
  case Nil
  show ?case by (simp add: aggregatedByOriginal_def)
next
  case (snoc e evs)
  show ?case
    by (simp add: aggregatedByOriginal_snoc map_of_aggregateEvent snoc.IH Let_def hd_append)
qed

lemma find_filter_hd:
  "find P xs = (if filter P xs = [] then None else Some (hd (filter P xs)))"
  by (induction xs) auto

text \<open>
  C2 (as amended). For every original aggregation key that is not a property name
  inherited from \<open>Object.prototype\<close>, the color carried into Stage 4 is the color of the
  first surviving (not ignored) event with that effective label in iteration order; later
  events with the same label add their duration and leave the color alone. A key with no
  surviving event has no group.
\<close>

theorem carried_color_first_event:
  assumes "k \<notin> set inheritedNames"
  shows "map_option OriginalAgg.color (map_of (aggregatedByOriginal ign evs) k) =
    map_option AnalyzedEvent.color
      (find (\<lambda>e. title e = k) (filter (\<lambda>e. title e \<notin> set ign) evs))"
  using assms by (simp add: map_of_aggregatedByOriginal find_filter_hd Let_def conj_commute)

theorem carried_color_first_event_witness:
  "map_option OriginalAgg.color (map_of (aggregatedByOriginal [''Gym'']
      [\<lparr>title = ''Gym'', durationHours = 1 :: int, AnalyzedEvent.color = ''#000000''\<rparr>,
       \<lparr>title = ''A'', durationHours = 1, AnalyzedEvent.color = ''#111111''\<rparr>,
       \<lparr>title = ''A'', durationHours = 2, AnalyzedEvent.color = ''#222222''\<rparr>]) ''A'')
   = Some ''#111111''"
proof -
  have h: "''A'' \<notin> set inheritedNames" by (simp add: inheritedNames_def)
  show ?thesis
    using carried_color_first_event [OF h, of "[''Gym'']"
      "[\<lparr>title = ''Gym'', durationHours = 1 :: int, AnalyzedEvent.color = ''#000000''\<rparr>,
       \<lparr>title = ''A'', durationHours = 1, AnalyzedEvent.color = ''#111111''\<rparr>,
       \<lparr>title = ''A'', durationHours = 2, AnalyzedEvent.color = ''#222222''\<rparr>]"]
    by simp
qed

text \<open>
  C2 as stated fails: of two events titled \<open>"A"\<close>, the first with color \<open>#111111\<close> and the
  last with color \<open>#222222\<close>, the group carries the color of the first.
\<close>

theorem carried_color_counterexample:
  "map_of (aggregatedByOriginal []
      [\<lparr>title = ''A'', durationHours = 1 :: int, AnalyzedEvent.color = ''#111111''\<rparr>,
       \<lparr>title = ''A'', durationHours = 2, AnalyzedEvent.color = ''#222222''\<rparr>]) ''A''
   = Some \<lparr>OriginalAgg.duration = 3, OriginalAgg.color = ''#111111''\<rparr>"
  by (simp add: aggregatedByOriginal_def aggregateEvent_def getProp_def inheritedNames_def)

subsection \<open>Stage 4: the dictionary built from the original keys\<close>

lemma displayStep_cases:
  "displayStep um acc e =
    (if map_of acc (displayNameOf um (fst e)) = None
        \<and> displayNameOf um (fst e) \<in> set inheritedNames
     then Inl TypeError
     else Inr (displayStepOwn um acc e))"
  by (cases "map_of acc (displayNameOf um (fst e))")
     (simp_all add: displayStep_def displayStepOwn_def getProp_def AList.update_conv' Let_def)

lemma keys_displayStepOwn:
  "map fst (displayStepOwn um acc e) =
    (if displayNameOf um (fst e) \<in> set (map fst acc) then map fst acc
     else map fst acc @ [displayNameOf um (fst e)])"
proof (cases "map_of acc (displayNameOf um (fst e))")
  case None
  then have "displayNameOf um (fst e) \<notin> set (map fst acc)" by (simp add: map_of_None_keys)
  with None show ?thesis by (simp add: displayStepOwn_def Let_def AList.update_keys)
next
  case (Some d)
  then have "displayNameOf um (fst e) \<in> set (map fst acc)"
    using map_of_None_keys [of acc "displayNameOf um (fst e)"] by simp
  with Some show ?thesis by (simp add: displayStepOwn_def Let_def)
qed

lemma map_of_displayStepOwn:
  "map_of (displayStepOwn um acc e) n =
    (if n \<noteq> displayNameOf um (fst e) then map_of acc n
     else Some
       (let d0 = (case map_of acc n of
                    None \<Rightarrow> \<lparr>DisplayAgg.duration = 0,
                              DisplayAgg.color = displayColorOf um (fst e) (snd e),
                              DisplayAgg.originalNames = []\<rparr>
                  | Some d \<Rightarrow> d)
        in \<lparr>DisplayAgg.duration = DisplayAgg.duration d0 + OriginalAgg.duration (snd e),
            DisplayAgg.color = displayColorOf um (fst e) (snd e),
            DisplayAgg.originalNames =
              (if fst e \<in> set (DisplayAgg.originalNames d0) then DisplayAgg.originalNames d0
               else DisplayAgg.originalNames d0 @ [fst e])\<rparr>))"
  by (cases "map_of acc (displayNameOf um (fst e))")
     (simp_all add: displayStepOwn_def Let_def AList.map_of_map_entry AList.update_conv')

lemma keys_foldl_displayStepOwn:
  "map fst (foldl (displayStepOwn um) [] xs) =
    firstOccurrences (map (\<lambda>e. displayNameOf um (fst e)) xs)"
proof (induction xs rule: rev_induct)
  case Nil
  show ?case by simp
next
  case (snoc e xs)
  show ?case
    by (auto simp: keys_displayStepOwn snoc.IH firstOccurrences_snoc)
qed

lemma map_of_foldl_displayStepOwn:
  "map_of (foldl (displayStepOwn um) [] xs) n =
    (let es = filter (\<lambda>e. displayNameOf um (fst e) = n) xs
     in if es = [] then None
        else Some \<lparr>DisplayAgg.duration =
                     foldl (+) 0 (map (\<lambda>e. OriginalAgg.duration (snd e)) es),
                   DisplayAgg.color = displayColorOf um (fst (last es)) (snd (last es)),
                   DisplayAgg.originalNames = firstOccurrences (map fst es)\<rparr>)"
proof (induction xs arbitrary: n rule: rev_induct)
  case Nil
  show ?case by simp
next
  case (snoc e xs)
  show ?case
    by (auto simp add: map_of_displayStepOwn snoc.IH Let_def
          firstOccurrences_snoc filter_empty_conv)
qed

lemma forEachE_displayStep:
  "set (map fst acc) \<inter> set inheritedNames = {} \<Longrightarrow>
    forEachE (displayStep um) acc xs =
      (if \<exists>e \<in> set xs. displayNameOf um (fst e) \<in> set inheritedNames then Inl TypeError
       else Inr (foldl (displayStepOwn um) acc xs))"
proof (induction xs arbitrary: acc)
  case Nil
  show ?case by simp
next
  case (Cons x xs)
  show ?case
  proof (cases "displayNameOf um (fst x) \<in> set inheritedNames")
    case True
    with Cons.prems have "displayNameOf um (fst x) \<notin> set (map fst acc)" by auto
    then have "map_of acc (displayNameOf um (fst x)) = None" by (simp add: map_of_None_keys)
    with True show ?thesis by (simp add: displayStep_cases)
  next
    case False
    then have step: "displayStep um acc x = Inr (displayStepOwn um acc x)"
      by (simp add: displayStep_cases)
    from False Cons.prems
    have "set (map fst (displayStepOwn um acc x)) \<inter> set inheritedNames = {}"
      by (auto simp: keys_displayStepOwn split: if_splits)
    from Cons.IH [OF this] False step show ?thesis by simp
  qed
qed

lemma aggregatedByDisplay_cases:
  "aggregatedByDisplay um bo =
    (if \<exists>e \<in> set bo. displayNameOf um (fst e) \<in> set inheritedNames then Inl TypeError
     else Inr (foldl (displayStepOwn um) [] (objectEntries bo)))"
  unfolding aggregatedByDisplay_def
  by (subst forEachE_displayStep) simp_all

subsection \<open>Durations\<close>












lemma finalProjects_Inr:
  assumes "finalProjects lc imgs um ign rules = Inr ps"
  shows "ps = map toProject (objectEntries (foldl (displayStepOwn um) []
              (objectEntries (aggregatedByOriginal ign (processedEvents lc imgs rules)))))"
  using assms
  by (auto simp: finalProjects_def aggregatedByDisplay_cases split: if_splits)


text \<open>Stage 5 changes colors only.\<close>

lemma assignColors_recolors:
  "list_all2 (\<lambda>q p. \<exists>c. q = p\<lparr>color := c\<rparr>) (assignColors um U i ps) ps"
proof (induction ps arbitrary: U i)
  case Nil
  show ?case by simp
next
  case (Cons p ps)
  have same: "\<exists>c. p = p\<lparr>color := c\<rparr>"
    by (rule exI [of _ "color p"]) simp
  show ?case
    using Cons.IH same by (auto simp: Let_def)
qed

lemma recolors_map:
  assumes "list_all2 (\<lambda>q p. \<exists>c. q = p\<lparr>color := c\<rparr>) qs ps"
  shows "map name qs = map name ps" "map duration qs = map duration ps"
    "map originalNames qs = map originalNames ps"
  using assms by (induction rule: list_all2_induct) auto

lemma recolors_elem:
  assumes "list_all2 (\<lambda>q p. \<exists>c. q = p\<lparr>color := c\<rparr>) qs ps" "q \<in> set qs"
  shows "\<exists>p \<in> set ps. \<exists>c. q = p\<lparr>color := c\<rparr>"
  using assms by (induction rule: list_all2_induct) auto

lemma displayProjects_Inr:
  assumes "displayProjects lc imgs um ign rules = Inr out"
  shows "\<exists>ps. finalProjects lc imgs um ign rules = Inr ps
    \<and> out = assignColors um (set (map color ps)) 0 ps"
  using assms by (auto simp: displayProjects_def split: sum.splits)





subsection \<open>The Projects of the output\<close>

lemma finalProjects_elem:
  assumes "finalProjects lc imgs um ign rules = Inr ps" "p \<in> set ps"
  shows "\<exists>es. es = filter (\<lambda>e. displayNameOf um (fst e) = name p)
                  (objectEntries (aggregatedByOriginal ign (processedEvents lc imgs rules)))
          \<and> es \<noteq> []
          \<and> color p = displayColorOf um (fst (last es)) (snd (last es))
          \<and> originalNames p = map fst es"
proof -
  let ?bo = "aggregatedByOriginal ign (processedEvents lc imgs rules)"
  let ?abd = "foldl (displayStepOwn um) [] (objectEntries ?bo)"
  from assms(2) finalProjects_Inr [OF assms(1)]
  obtain n d where nd: "(n, d) \<in> set ?abd" and p: "p = toProject (n, d)"
    by auto
  let ?es = "filter (\<lambda>e. displayNameOf um (fst e) = n) (objectEntries ?bo)"
  have "distinct (map fst ?abd)" by (simp add: keys_foldl_displayStepOwn)
  with nd have look: "map_of ?abd n = Some d" by simp
  have n: "name p = n" using p by (simp add: toProject_def)
  have "distinct (map fst (objectEntries ?bo))"
    using distinct_objectKeys [OF distinct_keys_aggregatedByOriginal, of ign "processedEvents lc imgs rules"]
    by (simp add: objectKeys_def)
  then have "distinct (map fst ?es)" by (rule distinct_map_filter)
  then have fo: "firstOccurrences (map fst ?es) = map fst ?es"
    by (rule firstOccurrences_distinct)
  from look have ne: "?es \<noteq> []"
    unfolding map_of_foldl_displayStepOwn Let_def by (auto split: if_splits)
  with look have d: "DisplayAgg.color d = displayColorOf um (fst (last ?es)) (snd (last ?es))
      \<and> DisplayAgg.originalNames d = map fst ?es"
    unfolding map_of_foldl_displayStepOwn Let_def fo by auto
  show ?thesis
    using ne d by (simp add: p toProject_def)
qed

lemma displayProjects_elem:
  assumes "displayProjects lc imgs um ign rules = Inr out" "q \<in> set out"
  shows "\<exists>ps. finalProjects lc imgs um ign rules = Inr ps
    \<and> (\<exists>p \<in> set ps. \<exists>c. q = p\<lparr>color := c\<rparr>)"
proof -
  from displayProjects_Inr [OF assms(1)] obtain ps where
    ps: "finalProjects lc imgs um ign rules = Inr ps"
    and out: "out = assignColors um (set (map color ps)) 0 ps"
    by blast
  from assms(2) have "\<exists>p \<in> set ps. \<exists>c. q = p\<lparr>color := c\<rparr>"
    unfolding out by (rule recolors_elem [OF assignColors_recolors])
  with ps show ?thesis by blast
qed

text \<open>
  C3 (as amended). Before the color fallback, the color of every Project is the display
  color of the last of its contributing original keys in iteration order: the color of
  that key's mapping entry when the key has one with a non-empty color, and that key's
  Stage-3 carried color otherwise. Mapping entries of the earlier contributing keys have no
  influence on the color.
\<close>

theorem display_color_last_key:
  assumes "finalProjects lc imgs um ign rules = Inr ps" "p \<in> set ps"
  shows "originalNames p \<noteq> []
    \<and> (\<exists>data. map_of (aggregatedByOriginal ign (processedEvents lc imgs rules))
                 (last (originalNames p)) = Some data
          \<and> color p = displayColorOf um (last (originalNames p)) data)"
proof -
  let ?bo = "aggregatedByOriginal ign (processedEvents lc imgs rules)"
  from finalProjects_elem [OF assms] obtain es where
    es: "es = filter (\<lambda>e. displayNameOf um (fst e) = name p) (objectEntries ?bo)"
    and ne: "es \<noteq> []"
    and col: "color p = displayColorOf um (fst (last es)) (snd (last es))"
    and ons: "originalNames p = map fst es"
    by blast
  from ne have "last es \<in> set es" by simp
  then have "last es \<in> set ?bo" by (simp add: es)
  then have "(fst (last es), snd (last es)) \<in> set ?bo" by simp
  then have "map_of ?bo (fst (last es)) = Some (snd (last es))"
    using distinct_keys_aggregatedByOriginal [of ign "processedEvents lc imgs rules"]
    by (rule map_of_is_SomeI [rotated])
  moreover have "last (originalNames p) = fst (last es)"
    using ne by (simp add: ons last_map)
  ultimately show ?thesis using ne col ons by simp
qed

theorem display_color_last_key_witness:
  "displayColorOf
      [(''A'', \<lparr>UserMapping.name = ''X'', UserMapping.color = ''#aaaaaa''\<rparr>),
       (''B'', \<lparr>UserMapping.name = ''X'', UserMapping.color = ''#bbbbbb''\<rparr>)]
      ''B'' \<lparr>OriginalAgg.duration = 2 :: real, OriginalAgg.color = ''#222222''\<rparr>
   = color \<lparr>name = ''X'', duration = 3 :: real, color = ''#bbbbbb'',
             originalNames = [''A'', ''B'']\<rparr>"
proof -
  let ?imgs = "[\<lparr>image_id = ''1'', base64 = [], events =
      [\<lparr>title = ''A'', durationHours = 1 :: real, AnalyzedEvent.color = ''#111111''\<rparr>,
       \<lparr>title = ''B'', durationHours = 2, AnalyzedEvent.color = ''#222222''\<rparr>]\<rparr>]"
  let ?um = "[(''A'', \<lparr>UserMapping.name = ''X'', UserMapping.color = ''#aaaaaa''\<rparr>),
       (''B'', \<lparr>UserMapping.name = ''X'', UserMapping.color = ''#bbbbbb''\<rparr>)]"
  let ?p = "\<lparr>name = ''X'', duration = 3 :: real, color = ''#bbbbbb'',
             originalNames = [''A'', ''B'']\<rparr>"
  have h1: "finalProjects asciiLowerCase ?imgs ?um [] [] = Inr [?p]"
    by code_simp
  have h2: "?p \<in> set [?p]" by simp
  have h3: "map_of (aggregatedByOriginal [] (processedEvents asciiLowerCase ?imgs [])) ''B''
      = Some \<lparr>OriginalAgg.duration = 2, OriginalAgg.color = ''#222222''\<rparr>"
    by code_simp
  from display_color_last_key [OF h1 h2] show ?thesis
    by (simp add: h3)
qed

text \<open>
  C3 as stated fails: the key \<open>A\<close> is renamed to \<open>B\<close> with the color \<open>#333333\<close>, the key
  \<open>B\<close> has no mapping entry. Both fold into the Project \<open>B\<close>; a contributing key has a
  mapping entry, yet the Project's color is the carried color \<open>#222222\<close> of the key \<open>B\<close>,
  which came last.
\<close>

theorem display_color_counterexample:
  "finalProjects asciiLowerCase
      [\<lparr>image_id = ''1'', base64 = [], events =
          [\<lparr>title = ''A'', durationHours = 1 :: real, AnalyzedEvent.color = ''#111111''\<rparr>,
           \<lparr>title = ''B'', durationHours = 2, AnalyzedEvent.color = ''#222222''\<rparr>]\<rparr>]
      [(''A'', \<lparr>UserMapping.name = ''B'', UserMapping.color = ''#333333''\<rparr>)] [] []
   = Inr [\<lparr>name = ''B'', duration = 3, color = ''#222222'', originalNames = [''A'', ''B'']\<rparr>]"
  by code_simp

lemma originalNames_general:
  assumes "displayProjects lc imgs um ign rules = Inr out"
  shows "(\<forall>p \<in> set out.
      originalNames p \<noteq> [] \<and> distinct (originalNames p)
      \<and> originalNames p =
          filter (\<lambda>k. displayNameOf um k = name p)
            (keyOrder (firstOccurrences (map title
              (filter (\<lambda>e. title e \<notin> set ign \<and> title e \<notin> set inheritedNames)
                (processedEvents lc imgs rules))))))
   \<and> (\<exists>ps. finalProjects lc imgs um ign rules = Inr ps
        \<and> map originalNames out = map originalNames ps
        \<and> map name out = map name ps
        \<and> map duration out = map duration ps)"
proof -
  let ?bo = "aggregatedByOriginal ign (processedEvents lc imgs rules)"
  from displayProjects_Inr [OF assms] obtain ps where
    ps: "finalProjects lc imgs um ign rules = Inr ps"
    and out: "out = assignColors um (set (map color ps)) 0 ps"
    by blast
  have rec: "list_all2 (\<lambda>q p. \<exists>c. q = p\<lparr>color := c\<rparr>) out ps"
    unfolding out by (rule assignColors_recolors)
  have elems: "originalNames q \<noteq> [] \<and> distinct (originalNames q)
      \<and> originalNames q = filter (\<lambda>k. displayNameOf um k = name q)
            (keyOrder (firstOccurrences (map title
              (filter (\<lambda>e. title e \<notin> set ign \<and> title e \<notin> set inheritedNames)
                (processedEvents lc imgs rules)))))"
    if "q \<in> set out" for q
  proof -
    from recolors_elem [OF rec that] obtain p c where
      p: "p \<in> set ps" and q: "q = p\<lparr>color := c\<rparr>"
      by blast
    from finalProjects_elem [OF ps p] have ne: "originalNames p \<noteq> []"
      and ons: "originalNames p =
        map fst (filter (\<lambda>e. displayNameOf um (fst e) = name p) (objectEntries ?bo))"
      by auto
    have "map fst (filter (\<lambda>e. displayNameOf um (fst e) = name p) (objectEntries ?bo))
        = filter (\<lambda>k. displayNameOf um k = name p) (objectKeys ?bo)"
      by (simp add: filter_map comp_def objectKeys_def)
    with ons have eq: "originalNames p = filter (\<lambda>k. displayNameOf um k = name p)
        (keyOrder (firstOccurrences (map title
          (filter (\<lambda>e. title e \<notin> set ign \<and> title e \<notin> set inheritedNames)
            (processedEvents lc imgs rules)))))"
      by (simp add: objectKeys_keyOrder keys_aggregatedByOriginal)
    then have "distinct (originalNames p)" by (simp add: distinct_keyOrder)
    with ne eq show ?thesis by (simp add: q)
  qed
  then have all: "\<forall>p \<in> set out.
      originalNames p \<noteq> [] \<and> distinct (originalNames p)
      \<and> originalNames p =
          filter (\<lambda>k. displayNameOf um k = name p)
            (keyOrder (firstOccurrences (map title
              (filter (\<lambda>e. title e \<notin> set ign \<and> title e \<notin> set inheritedNames)
                (processedEvents lc imgs rules)))))"
    by blast
  from ps recolors_map [OF rec] have "\<exists>ps. finalProjects lc imgs um ign rules = Inr ps
        \<and> map originalNames out = map originalNames ps
        \<and> map name out = map name ps
        \<and> map duration out = map duration ps"
    by blast
  with all show ?thesis by (rule conjI)
qed

text \<open>
  C9 (as amended). Let the engine return a list of Projects and let no effective label of
  a surviving event be a property name inherited from \<open>Object.prototype\<close>. Then every
  Project of the output has a non-empty \<open>originalNames\<close> list without repetitions: the
  original aggregation keys whose display name (the name of the mapping entry, or the key
  itself when there is no entry or its name is empty) is the Project's name, in the order
  in which the engine iterates over the original keys. That order lists the keys that are
  array indices first, in ascending numeric order, and then the other keys in the order of
  their first appearance among the surviving events. Stage 5 leaves \<open>originalNames\<close>,
  \<open>name\<close> and \<open>duration\<close> of every Project as they were.
\<close>

theorem originalNames_invariant:
  assumes "displayProjects lc imgs um ign rules = Inr out"
    and "\<forall>e \<in> set (processedEvents lc imgs rules).
           title e \<notin> set ign \<longrightarrow> title e \<notin> set inheritedNames"
  shows "(\<forall>p \<in> set out.
      originalNames p \<noteq> [] \<and> distinct (originalNames p)
      \<and> originalNames p =
          filter (\<lambda>k. displayNameOf um k = name p)
            (keyOrder (firstOccurrences (map title
              (filter (\<lambda>e. title e \<notin> set ign) (processedEvents lc imgs rules))))))
   \<and> (\<exists>ps. finalProjects lc imgs um ign rules = Inr ps
        \<and> map originalNames out = map originalNames ps
        \<and> map name out = map name ps
        \<and> map duration out = map duration ps)"
proof -
  have eq: "filter (\<lambda>e. title e \<notin> set ign \<and> title e \<notin> set inheritedNames)
        (processedEvents lc imgs rules)
      = filter (\<lambda>e. title e \<notin> set ign) (processedEvents lc imgs rules)"
    using assms(2) by (auto intro: filter_cong)
  from originalNames_general [OF assms(1)] show ?thesis
    unfolding eq .
qed

theorem originalNames_invariant_witness:
  "originalNames \<lparr>name = ''X'', duration = 5 :: real, color = ''#aaaaaa'',
        originalNames = [''7'', ''B'', ''A'']\<rparr>
   = filter (\<lambda>k. k \<noteq> ''C'') [''7'', ''B'', ''C'', ''A'']"
proof -
  let ?imgs = "[\<lparr>image_id = ''1'', base64 = [], events =
      [\<lparr>title = ''B'', durationHours = 1 :: real, AnalyzedEvent.color = ''#808080''\<rparr>,
       \<lparr>title = ''C'', durationHours = 1, AnalyzedEvent.color = ''#808080''\<rparr>,
       \<lparr>title = ''A'', durationHours = 2, AnalyzedEvent.color = ''#808080''\<rparr>,
       \<lparr>title = ''7'', durationHours = 1, AnalyzedEvent.color = ''#808080''\<rparr>,
       \<lparr>title = ''B'', durationHours = 1, AnalyzedEvent.color = ''#808080''\<rparr>]\<rparr>]"
  let ?um = "[(''A'', \<lparr>UserMapping.name = ''X'', UserMapping.color = ''#aaaaaa''\<rparr>),
       (''B'', \<lparr>UserMapping.name = ''X'', UserMapping.color = ''#bbbbbb''\<rparr>),
       (''7'', \<lparr>UserMapping.name = ''X'', UserMapping.color = ''#bbbbbb''\<rparr>)]"
  let ?p = "\<lparr>name = ''X'', duration = 5 :: real, color = ''#aaaaaa'',
        originalNames = [''7'', ''B'', ''A'']\<rparr>"
  let ?q = "\<lparr>name = ''C'', duration = 1 :: real, color = ''#0088FE'', originalNames = [''C'']\<rparr>"
  have h1: "displayProjects asciiLowerCase ?imgs ?um [] [] = Inr [?p, ?q]"
    by code_simp
  have h0: "\<forall>e \<in> set (processedEvents asciiLowerCase ?imgs []).
      title e \<notin> set [] \<longrightarrow> title e \<notin> set inheritedNames"
    by code_simp
  have h2: "keyOrder (firstOccurrences (map title
      (filter (\<lambda>e. title e \<notin> set []) (processedEvents asciiLowerCase ?imgs []))))
      = [''7'', ''B'', ''C'', ''A'']"
    by code_simp
  have h3: "filter (\<lambda>k. displayNameOf ?um k = ''X'') [''7'', ''B'', ''C'', ''A'']
      = filter (\<lambda>k. k \<noteq> ''C'') [''7'', ''B'', ''C'', ''A'']"
    by code_simp
  from originalNames_invariant [OF h1 h0, THEN conjunct1, rule_format, of ?p]
  show ?thesis
    unfolding h2 by (simp add: h3)
qed

text \<open>
  C9 as stated fails in its clause on the order: the events \<open>Gym\<close> and \<open>7\<close> appear in this
  order and both keys are renamed to \<open>X\<close>; the Project lists the array-index key \<open>7\<close> first.
\<close>

theorem index_key_order_counterexample:
  "displayProjects asciiLowerCase
      [\<lparr>image_id = ''1'', base64 = [], events =
          [\<lparr>title = ''Gym'', durationHours = 1 :: real, AnalyzedEvent.color = ''#808080''\<rparr>,
           \<lparr>title = ''7'', durationHours = 1, AnalyzedEvent.color = ''#808080''\<rparr>]\<rparr>]
      [(''Gym'', \<lparr>UserMapping.name = ''X'', UserMapping.color = ''#aaaaaa''\<rparr>),
       (''7'', \<lparr>UserMapping.name = ''X'', UserMapping.color = ''#aaaaaa''\<rparr>)] [] []
   = Inr [\<lparr>name = ''X'', duration = 2, color = ''#aaaaaa'', originalNames = [''7'', ''Gym'']\<rparr>]"
  by code_simp

lemma aggregate_skip_ignored:
  "K \<in> set ign \<Longrightarrow>
    foldl (aggregateEvent ign) acc (filter (\<lambda>e. title e \<noteq> K) evs) =
    foldl (aggregateEvent ign) acc evs"
  by (induction evs arbitrary: acc) (auto simp: aggregateEvent_def)

lemma processedEvents_drop:
  "processedEvents lc
     (map (\<lambda>img. img\<lparr>events := filter (\<lambda>e. title (processEvent lc rules e) \<noteq> K) (events img)\<rparr>) imgs)
     rules
   = filter (\<lambda>e. title e \<noteq> K) (processedEvents lc imgs rules)"
  by (simp add: processedEvents_def filter_map filter_concat comp_def map_concat)

text \<open>
  C5 (as amended). For a key \<open>K\<close> of the ignore list, the result of the engine is the one
  it computes when the events with the effective label \<open>K\<close> are removed from the images
  beforehand, so these events reach no aggregation and add nothing to any duration; and no
  Project of the output has \<open>K\<close> among its \<open>originalNames\<close>. A Project can still be named
  \<open>K\<close>, but only when all its contributing keys are other keys whose display name is \<open>K\<close>.
\<close>

theorem ignore_correctness:
  assumes "K \<in> set ign"
  shows "displayProjects lc imgs um ign rules =
      displayProjects lc
        (map (\<lambda>img. img\<lparr>events := filter (\<lambda>e. title (processEvent lc rules e) \<noteq> K) (events img)\<rparr>)
          imgs)
        um ign rules
    \<and> (\<forall>out. displayProjects lc imgs um ign rules = Inr out \<longrightarrow>
        (\<forall>p \<in> set out.
          K \<notin> set (originalNames p)
          \<and> (name p = K \<longrightarrow> (\<forall>k \<in> set (originalNames p). k \<noteq> K \<and> displayNameOf um k = K))))"
proof -
  have "displayProjects lc imgs um ign rules =
      displayProjects lc
        (map (\<lambda>img. img\<lparr>events := filter (\<lambda>e. title (processEvent lc rules e) \<noteq> K) (events img)\<rparr>)
          imgs)
        um ign rules"
    by (simp add: displayProjects_def finalProjects_def processedEvents_drop
          aggregatedByOriginal_def aggregate_skip_ignored [OF assms])
  moreover have "K \<notin> set (originalNames q)
      \<and> (name q = K \<longrightarrow> (\<forall>k \<in> set (originalNames q). k \<noteq> K \<and> displayNameOf um k = K))"
    if res: "displayProjects lc imgs um ign rules = Inr out" and q: "q \<in> set out" for out q
  proof -
    from displayProjects_elem [OF res q] obtain ps p c where
      ps: "finalProjects lc imgs um ign rules = Inr ps"
      and p: "p \<in> set ps" and q: "q = p\<lparr>color := c\<rparr>"
      by blast
    from finalProjects_elem [OF ps p] have
      ons: "originalNames p = map fst (filter (\<lambda>e. displayNameOf um (fst e) = name p)
              (objectEntries (aggregatedByOriginal ign (processedEvents lc imgs rules))))"
      by auto
    have keys: "set (map fst (aggregatedByOriginal ign (processedEvents lc imgs rules)))
        \<subseteq> - set ign"
      by (auto simp: keys_aggregatedByOriginal)
    have "set (originalNames p) \<subseteq> - set ign"
      using keys unfolding ons by auto
    moreover have "\<forall>k \<in> set (originalNames p). displayNameOf um k = name p"
      unfolding ons by auto
    ultimately show ?thesis using assms by (auto simp: q)
  qed
  ultimately show ?thesis by blast
qed

theorem ignore_correctness_witness:
  "displayProjects asciiLowerCase
      [\<lparr>image_id = ''1'', base64 = [], events =
          [\<lparr>title = ''Gym'', durationHours = 1 :: real, AnalyzedEvent.color = ''#808080''\<rparr>,
           \<lparr>title = ''Portugues Class'', durationHours = 2, AnalyzedEvent.color = ''#808080''\<rparr>]\<rparr>]
      [] [''Gym''] [(''Portugues'', ''Idiomas'')]
   = displayProjects asciiLowerCase
      [\<lparr>image_id = ''1'', base64 = [], events =
          [\<lparr>title = ''Portugues Class'', durationHours = 2 :: real, AnalyzedEvent.color = ''#808080''\<rparr>]\<rparr>]
      [] [''Gym''] [(''Portugues'', ''Idiomas'')]"
proof -
  let ?rules = "[(''Portugues'', ''Idiomas'')]"
  let ?e1 = "\<lparr>title = ''Gym'', durationHours = 1 :: real, AnalyzedEvent.color = ''#808080''\<rparr>"
  let ?e2 = "\<lparr>title = ''Portugues Class'', durationHours = 2 :: real,
      AnalyzedEvent.color = ''#808080''\<rparr>"
  have h: "''Gym'' \<in> set [''Gym'']" by simp
  have f: "filter (\<lambda>e. title (processEvent asciiLowerCase ?rules e) \<noteq> ''Gym'') [?e1, ?e2] = [?e2]"
    by code_simp
  have m: "map (\<lambda>img. img\<lparr>events :=
          filter (\<lambda>e. title (processEvent asciiLowerCase ?rules e) \<noteq> ''Gym'') (events img)\<rparr>)
        [\<lparr>image_id = ''1'', base64 = [], events = [?e1, ?e2]\<rparr>]
      = [\<lparr>image_id = ''1'', base64 = [], events = [?e2]\<rparr>]"
    by (simp only: list.map CalendarImage.simps f)
  from ignore_correctness [OF h, THEN conjunct1, of asciiLowerCase
      "[\<lparr>image_id = ''1'', base64 = [], events = [?e1, ?e2]\<rparr>]" "[]" ?rules]
  show ?thesis
    unfolding m .
qed

text \<open>
  C5 as stated fails in its clause on names: \<open>Gym\<close> is ignored, the key \<open>Run\<close> is renamed to
  \<open>Gym\<close>, and the output has a Project named \<open>Gym\<close>.
\<close>

theorem ignored_name_counterexample:
  "displayProjects asciiLowerCase
      [\<lparr>image_id = ''1'', base64 = [], events =
          [\<lparr>title = ''Run'', durationHours = 1 :: real, AnalyzedEvent.color = ''#808080''\<rparr>]\<rparr>]
      [(''Run'', \<lparr>UserMapping.name = ''Gym'', UserMapping.color = ''#ff0000''\<rparr>)] [''Gym''] []
   = Inr [\<lparr>name = ''Gym'', duration = 1, color = ''#ff0000'', originalNames = [''Run'']\<rparr>]"
  by code_simp

subsection \<open>Stage 5: the palette\<close>

lemma skipUsed_ge: "i \<le> skipUsed U i"
proof (induction U i rule: skipUsed.induct)
  case (1 U i)
  show ?case
  proof (cases "i < length COLORS \<and> COLORS ! i \<in> U")
    case True
    with "1.IH" have "i + 1 \<le> skipUsed U (i + 1)" by simp
    with True show ?thesis by (subst skipUsed.simps) simp
  next
    case False
    then show ?thesis by (subst skipUsed.simps) auto
  qed
qed

lemma skipUsed_stop:
  "skipUsed U i < length COLORS \<Longrightarrow> COLORS ! skipUsed U i \<notin> U"
proof (induction U i rule: skipUsed.induct)
  case (1 U i)
  show ?case
  proof (cases "i < length COLORS \<and> COLORS ! i \<in> U")
    case True
    then have eq: "skipUsed U i = skipUsed U (i + 1)" by (subst skipUsed.simps) simp
    with "1.IH" "1.prems" True show ?thesis by simp
  next
    case False
    then have eq: "skipUsed U i = i" by (subst skipUsed.simps) auto
    with False "1.prems" show ?thesis by auto
  qed
qed

lemma skipUsed_skipped:
  "i \<le> j \<Longrightarrow> j < skipUsed U i \<Longrightarrow> j < length COLORS \<and> COLORS ! j \<in> U"
proof (induction U i rule: skipUsed.induct)
  case (1 U i)
  show ?case
  proof (cases "i < length COLORS \<and> COLORS ! i \<in> U")
    case True
    then have eq: "skipUsed U i = skipUsed U (i + 1)" by (subst skipUsed.simps) simp
    show ?thesis
    proof (cases "j = i")
      case True
      with \<open>i < length COLORS \<and> COLORS ! i \<in> U\<close> show ?thesis by simp
    next
      case False
      with "1.prems" have "i + 1 \<le> j" by simp
      with "1.IH" True "1.prems" eq show ?thesis by simp
    qed
  next
    case False
    then have eq: "skipUsed U i = i" by (subst skipUsed.simps) auto
    with "1.prems" show ?thesis by simp
  qed
qed

lemma find_unused:
  assumes "paletteInv U i"
  shows "find (\<lambda>c. c \<notin> U) COLORS =
    (if skipUsed U i < length COLORS then Some (COLORS ! skipUsed U i) else None)"
proof -
  have before: "j < length COLORS \<Longrightarrow> j < skipUsed U i \<Longrightarrow> COLORS ! j \<in> U" for j
    using assms skipUsed_skipped [of i j U] unfolding paletteInv_def
    by (cases "j < i") auto
  show ?thesis
  proof (cases "skipUsed U i < length COLORS")
    case True
    have "find (\<lambda>c. c \<notin> U) COLORS = Some (COLORS ! skipUsed U i)"
      unfolding find_Some_iff
      using True skipUsed_stop [OF True] before
      by (intro exI [of _ "skipUsed U i"]) auto
    with True show ?thesis by simp
  next
    case False
    have "find (\<lambda>c. c \<notin> U) COLORS = None"
      unfolding find_None_iff using False before
      by (auto simp: in_set_conv_nth)
    with False show ?thesis by simp
  qed
qed

lemma paletteInv_used:
  assumes "paletteInv U i" "skipUsed U i < length COLORS"
  shows "paletteInv (insert (COLORS ! skipUsed U i) U) (skipUsed U i + 1)"
  unfolding paletteInv_def
proof (intro allI impI)
  fix j assume j: "j < skipUsed U i + 1" "j < length COLORS"
  show "COLORS ! j \<in> insert (COLORS ! skipUsed U i) U"
  proof (cases "j = skipUsed U i")
    case True
    then show ?thesis by simp
  next
    case False
    with j have lt: "j < skipUsed U i" by simp
    show ?thesis
    proof (cases "j < i")
      case True
      with assms(1) j show ?thesis by (simp add: paletteInv_def)
    next
      case False
      with skipUsed_skipped [of i j U] lt show ?thesis by simp
    qed
  qed
qed

lemma paletteInv_exhausted:
  assumes "paletteInv U i"
  shows "paletteInv U (skipUsed U i)"
  unfolding paletteInv_def
proof (intro allI impI)
  fix j assume j: "j < skipUsed U i" "j < length COLORS"
  show "COLORS ! j \<in> U"
  proof (cases "j < i")
    case True
    with assms j show ?thesis by (simp add: paletteInv_def)
  next
    case False
    with skipUsed_skipped [of i j U] j show ?thesis by simp
  qed
qed

lemma length_assignColors [simp]: "length (assignColors um U i ps) = length ps"
  by (induction ps arbitrary: U i) (auto simp: Let_def)

text \<open>What Stage 5 does to the \<open>n\<close>-th Project, without the counter.\<close>

lemma assignColors_nth:
  assumes "paletteInv U i" "color ` set ps \<subseteq> U" "n < length ps"
  shows "assignColors um U i ps ! n =
    (if needsColor um (ps ! n)
     then (case find (\<lambda>c. c \<notin> U \<union> color ` set (take n (assignColors um U i ps))) COLORS of
             None \<Rightarrow> ps ! n
           | Some c \<Rightarrow> (ps ! n)\<lparr>color := c\<rparr>)
     else ps ! n)"
  using assms
proof (induction ps arbitrary: U i n)
  case Nil
  then show ?case by simp
next
  case (Cons p ps)
  let ?i = "skipUsed U i"
  show ?case
  proof (cases n)
    case 0
    show ?thesis
      using find_unused [OF Cons.prems(1)] by (simp add: 0 Let_def)
  next
    case (Suc m)
    with Cons.prems have m: "m < length ps" by simp
    from Cons.prems have sub: "color ` set ps \<subseteq> U" and p: "color p \<in> U" by auto
    obtain p' U' i' where
      out: "assignColors um U i (p # ps) = p' # assignColors um U' i' ps"
      and inv: "paletteInv U' i'" and sub': "color ` set ps \<subseteq> U'"
      and used: "U' = insert (color p') U"
    proof (cases "needsColor um p")
      case False
      show ?thesis
      proof (rule that [of p U i])
        show "assignColors um U i (p # ps) = p # assignColors um U i ps"
          using False by simp
        show "U = insert (color p) U" using p by auto
      qed (rule Cons.prems(1), rule sub)
    next
      case True
      show ?thesis
      proof (cases "?i < length COLORS")
        case lt: True
        show ?thesis
        proof (rule that [of "p\<lparr>color := COLORS ! ?i\<rparr>" "insert (COLORS ! ?i) U" "?i + 1"])
          show "assignColors um U i (p # ps) =
              p\<lparr>color := COLORS ! ?i\<rparr> # assignColors um (insert (COLORS ! ?i) U) (?i + 1) ps"
            using True lt by (simp add: Let_def)
          show "paletteInv (insert (COLORS ! ?i) U) (?i + 1)"
            by (rule paletteInv_used [OF Cons.prems(1) lt])
          show "color ` set ps \<subseteq> insert (COLORS ! ?i) U" using sub by auto
          show "insert (COLORS ! ?i) U = insert (color (p\<lparr>color := COLORS ! ?i\<rparr>)) U"
            by simp
        qed
      next
        case ge: False
        show ?thesis
        proof (rule that [of p U ?i])
          show "assignColors um U i (p # ps) = p # assignColors um U ?i ps"
            using True ge by (simp add: Let_def)
          show "paletteInv U ?i" by (rule paletteInv_exhausted [OF Cons.prems(1)])
          show "U = insert (color p) U" using p by auto
        qed (rule sub)
      qed
    qed
    define out' where "out' = assignColors um U' i' ps"
    have S: "U' \<union> color ` set (take m out') = U \<union> color ` set (take (Suc m) (p' # out'))"
      unfolding used by simp
    have "out' ! m =
      (if needsColor um (ps ! m)
       then (case find (\<lambda>c. c \<notin> U' \<union> color ` set (take m out')) COLORS of
               None \<Rightarrow> ps ! m
             | Some c \<Rightarrow> (ps ! m)\<lparr>color := c\<rparr>)
       else ps ! m)"
      unfolding out'_def by (rule Cons.IH [OF inv sub' m])
    then have "(p' # out') ! Suc m =
      (if needsColor um ((p # ps) ! Suc m)
       then (case find (\<lambda>c. c \<notin> U \<union> color ` set (take (Suc m) (p' # out'))) COLORS of
               None \<Rightarrow> (p # ps) ! Suc m
             | Some c \<Rightarrow> ((p # ps) ! Suc m)\<lparr>color := c\<rparr>)
       else (p # ps) ! Suc m)"
      unfolding S by (simp only: nth_Cons_Suc)
    then show ?thesis
      unfolding out Suc out'_def .
  qed
qed

lemma fallback_changed:
  assumes char: "\<forall>n<length ps. out ! n =
      (if N (ps ! n)
       then (case find (\<lambda>c. c \<notin> color ` set ps \<union> color ` set (take n out)) COLORS of
               None \<Rightarrow> ps ! n
             | Some c \<Rightarrow> (ps ! n)\<lparr>color := c\<rparr>)
       else ps ! n)"
    and k: "k < length ps" and changed: "out ! k \<noteq> ps ! k"
  shows "color (out ! k) \<notin> color ` set ps \<union> color ` set (take k out)"
proof -
  from char k have eq: "out ! k =
      (if N (ps ! k)
       then (case find (\<lambda>c. c \<notin> color ` set ps \<union> color ` set (take k out)) COLORS of
               None \<Rightarrow> ps ! k
             | Some c \<Rightarrow> (ps ! k)\<lparr>color := c\<rparr>)
       else ps ! k)"
    by blast
  with changed obtain c where
    found: "find (\<lambda>c. c \<notin> color ` set ps \<union> color ` set (take k out)) COLORS = Some c"
    by (cases "find (\<lambda>c. c \<notin> color ` set ps \<union> color ` set (take k out)) COLORS")
       (auto split: if_splits)
  with eq changed have "color (out ! k) = c" by (auto split: if_splits)
  moreover from found have "c \<notin> color ` set ps \<union> color ` set (take k out)"
    by (auto simp: find_Some_iff)
  ultimately show ?thesis by simp
qed

lemma fallback_distinct:
  assumes len: "length out = length ps"
    and char: "\<forall>n<length ps. out ! n =
      (if N (ps ! n)
       then (case find (\<lambda>c. c \<notin> color ` set ps \<union> color ` set (take n out)) COLORS of
               None \<Rightarrow> ps ! n
             | Some c \<Rightarrow> (ps ! n)\<lparr>color := c\<rparr>)
       else ps ! n)"
    and m: "m < length ps" and n: "n < length ps" and mn: "m \<noteq> n"
    and changed: "out ! m \<noteq> ps ! m"
  shows "color (out ! m) \<noteq> color (out ! n)"
proof (cases "n < m")
  case True
  with m len have "out ! n \<in> set (take m out)"
    by (auto simp: in_set_conv_nth intro!: exI [of _ n])
  then have "color (out ! n) \<in> color ` set (take m out)" by (rule imageI)
  with fallback_changed [OF char m changed] show ?thesis by auto
next
  case False
  with mn have lt: "m < n" by simp
  show ?thesis
  proof (cases "out ! n = ps ! n")
    case True
    with n have "color (out ! n) \<in> color ` set ps" by simp
    with fallback_changed [OF char m changed] show ?thesis by auto
  next
    case False
    from lt n len have "out ! m \<in> set (take n out)"
      by (auto simp: in_set_conv_nth intro!: exI [of _ m])
    then have "color (out ! m) \<in> color ` set (take n out)" by (rule imageI)
    with fallback_changed [OF char n False] show ?thesis by auto
  qed
qed

text \<open>
  C4. Let \<open>ps\<close> be the Projects before Stage 5; the engine then returns a list \<open>out\<close> of
  the same length. A Project is given a new color exactly when \<open>needsColor\<close> holds for it,
  that is, its first contributing original key has no user color (no mapping entry, or one
  with an empty color) and its color is the sentinel \<open>#808080\<close>, and the palette still has
  an entry that is neither the color of any Project before Stage 5 nor the color of an
  earlier Project of the output. The new color is the first such palette entry. When there
  is no such entry the Project is left as it is, with the sentinel. A color given by the
  fallback differs from the color of every other Project of the output. When Stage 4 throws
  there are no Projects and the engine throws. The engine is a function of its inputs, so
  equal inputs give equal results.
\<close>

theorem palette_fallback:
  fixes imgs imgs' :: "('n::{zero,plus}) CalendarImage list"
  shows "(\<forall>ps. finalProjects lc imgs um ign rules = Inr ps \<longrightarrow>
      (\<exists>out. displayProjects lc imgs um ign rules = Inr out
         \<and> length out = length ps
         \<and> (\<forall>n<length ps. out ! n =
              (if needsColor um (ps ! n)
               then (case find (\<lambda>c. c \<notin> color ` set ps \<union> color ` set (take n out)) COLORS of
                       None \<Rightarrow> ps ! n
                     | Some c \<Rightarrow> (ps ! n)\<lparr>color := c\<rparr>)
               else ps ! n))
         \<and> (\<forall>m<length ps. \<forall>n<length ps.
              m \<noteq> n \<and> out ! m \<noteq> ps ! m \<longrightarrow> color (out ! m) \<noteq> color (out ! n))))
   \<and> (\<forall>e. finalProjects lc imgs um ign rules = Inl e \<longrightarrow>
        displayProjects lc imgs um ign rules = Inl e)
   \<and> (imgs' = imgs \<and> um' = um \<and> ign' = ign \<and> rules' = rules \<longrightarrow>
        displayProjects lc imgs' um' ign' rules' = displayProjects lc imgs um ign rules)"
proof (intro conjI allI impI)
  fix ps
  assume fp: "finalProjects lc imgs um ign rules = Inr ps"
  define out where "out = assignColors um (color ` set ps) 0 ps"
  have res: "displayProjects lc imgs um ign rules = Inr out"
    by (simp add: displayProjects_def fp out_def)
  have len: "length out = length ps" by (simp add: out_def)
  have inv: "paletteInv (color ` set ps) 0" by (simp add: paletteInv_def)
  have char: "\<forall>n<length ps. out ! n =
      (if needsColor um (ps ! n)
       then (case find (\<lambda>c. c \<notin> color ` set ps \<union> color ` set (take n out)) COLORS of
               None \<Rightarrow> ps ! n
             | Some c \<Rightarrow> (ps ! n)\<lparr>color := c\<rparr>)
       else ps ! n)"
    unfolding out_def by (intro allI impI) (rule assignColors_nth [OF inv subset_refl])
  have dist: "\<forall>m<length ps. \<forall>n<length ps.
      m \<noteq> n \<and> out ! m \<noteq> ps ! m \<longrightarrow> color (out ! m) \<noteq> color (out ! n)"
  proof (intro allI impI)
    fix m n
    assume "m < length ps" "n < length ps" "m \<noteq> n \<and> out ! m \<noteq> ps ! m"
    then show "color (out ! m) \<noteq> color (out ! n)"
      using fallback_distinct [OF len char, of m n] by simp
  qed
  from res len char dist
  show "\<exists>out. displayProjects lc imgs um ign rules = Inr out
         \<and> length out = length ps
         \<and> (\<forall>n<length ps. out ! n =
              (if needsColor um (ps ! n)
               then (case find (\<lambda>c. c \<notin> color ` set ps \<union> color ` set (take n out)) COLORS of
                       None \<Rightarrow> ps ! n
                     | Some c \<Rightarrow> (ps ! n)\<lparr>color := c\<rparr>)
               else ps ! n))
         \<and> (\<forall>m<length ps. \<forall>n<length ps.
              m \<noteq> n \<and> out ! m \<noteq> ps ! m \<longrightarrow> color (out ! m) \<noteq> color (out ! n))"
    by (intro exI [of _ out] conjI)
next
  fix e
  assume "finalProjects lc imgs um ign rules = Inl e"
  then show "displayProjects lc imgs um ign rules = Inl e"
    by (simp add: displayProjects_def)
next
  assume "imgs' = imgs \<and> um' = um \<and> ign' = ign \<and> rules' = rules"
  then show "displayProjects lc imgs' um' ign' rules' = displayProjects lc imgs um ign rules"
    by simp
qed

theorem palette_fallback_witness:
  "\<exists>out. displayProjects asciiLowerCase
      [\<lparr>image_id = ''1'', base64 = [], events =
          [\<lparr>title = ''Gym'', durationHours = 1 :: real, AnalyzedEvent.color = ''#808080''\<rparr>,
           \<lparr>title = ''Lunch'', durationHours = 1, AnalyzedEvent.color = ''#0088FE''\<rparr>,
           \<lparr>title = ''Run'', durationHours = 1, AnalyzedEvent.color = ''#808080''\<rparr>,
           \<lparr>title = ''Portugues Class'', durationHours = 2, AnalyzedEvent.color = ''#808080''\<rparr>]\<rparr>]
      [(''Run'', \<lparr>UserMapping.name = ''Running'', UserMapping.color = ''#808080''\<rparr>)]
      [] [(''Portugues'', ''Idiomas'')] = Inr out
    \<and> out ! 3 =
        \<lparr>name = ''Idiomas'', duration = 2, color = ''#FFBB28'', originalNames = [''Idiomas'']\<rparr>"
proof -
  let ?imgs = "[\<lparr>image_id = ''1'', base64 = [], events =
          [\<lparr>title = ''Gym'', durationHours = 1 :: real, AnalyzedEvent.color = ''#808080''\<rparr>,
           \<lparr>title = ''Lunch'', durationHours = 1, AnalyzedEvent.color = ''#0088FE''\<rparr>,
           \<lparr>title = ''Run'', durationHours = 1, AnalyzedEvent.color = ''#808080''\<rparr>,
           \<lparr>title = ''Portugues Class'', durationHours = 2, AnalyzedEvent.color = ''#808080''\<rparr>]\<rparr>]"
  let ?um = "[(''Run'', \<lparr>UserMapping.name = ''Running'', UserMapping.color = ''#808080''\<rparr>)]"
  let ?rules = "[(''Portugues'', ''Idiomas'')]"
  let ?ps = "[\<lparr>name = ''Gym'', duration = 1 :: real, color = ''#808080'', originalNames = [''Gym'']\<rparr>,
       \<lparr>name = ''Lunch'', duration = 1, color = ''#0088FE'', originalNames = [''Lunch'']\<rparr>,
       \<lparr>name = ''Running'', duration = 1, color = ''#808080'', originalNames = [''Run'']\<rparr>,
       \<lparr>name = ''Idiomas'', duration = 2, color = ''#808080'', originalNames = [''Idiomas'']\<rparr>]"
  let ?qs = "[\<lparr>name = ''Gym'', duration = 1 :: real, color = ''#00C49F'', originalNames = [''Gym'']\<rparr>,
       \<lparr>name = ''Lunch'', duration = 1, color = ''#0088FE'', originalNames = [''Lunch'']\<rparr>,
       \<lparr>name = ''Running'', duration = 1, color = ''#808080'', originalNames = [''Run'']\<rparr>,
       \<lparr>name = ''Idiomas'', duration = 2, color = ''#FFBB28'', originalNames = [''Idiomas'']\<rparr>]"
  have fp: "finalProjects asciiLowerCase ?imgs ?um [] ?rules = Inr ?ps"
    by code_simp
  have dp: "displayProjects asciiLowerCase ?imgs ?um [] ?rules = Inr ?qs"
    by code_simp
  have rhs: "(if needsColor ?um (?ps ! 3)
       then (case find (\<lambda>c. c \<notin> color ` set ?ps \<union> color ` set (take 3 ?qs)) COLORS of
               None \<Rightarrow> ?ps ! 3
             | Some c \<Rightarrow> (?ps ! 3)\<lparr>color := c\<rparr>)
       else ?ps ! 3)
      = \<lparr>name = ''Idiomas'', duration = 2, color = ''#FFBB28'', originalNames = [''Idiomas'']\<rparr>"
    by code_simp
  have n: "3 < length ?ps" by simp
  from palette_fallback [THEN conjunct1, rule_format, OF fp]
  obtain out where o: "displayProjects asciiLowerCase ?imgs ?um [] ?rules = Inr out"
    and char: "\<forall>n<length ?ps. out ! n =
              (if needsColor ?um (?ps ! n)
               then (case find (\<lambda>c. c \<notin> color ` set ?ps \<union> color ` set (take n out)) COLORS of
                       None \<Rightarrow> ?ps ! n
                     | Some c \<Rightarrow> (?ps ! n)\<lparr>color := c\<rparr>)
               else ?ps ! n)"
    by blast
  from o dp have out: "out = ?qs" by simp
  from char [rule_format, OF n] have "out ! 3 =
      \<lparr>name = ''Idiomas'', duration = 2, color = ''#FFBB28'', originalNames = [''Idiomas'']\<rparr>"
    unfolding out rhs .
  with o show ?thesis by blast
qed

subsection \<open>The rename/recolor mutator\<close>

lemma recolored_None [simp]: "recolored dn c None = None"
  by (simp add: recolored_def)

lemma recolored_eq_None [simp]: "recolored dn c x = None \<longleftrightarrow> x = None"
  by (simp add: recolored_def)

lemma recolored_twice [simp]: "recolored dn c (recolored dn c x) = recolored dn c x"
  by (cases x) (simp_all add: recolored_def)

lemma recolored_Some:
  assumes "recolored nn nc x = Some m" "UserMapping.name m = nn"
  shows "UserMapping.color m = nc"
proof (cases x)
  case None
  with assms show ?thesis by simp
next
  case (Some z)
  show ?thesis
  proof (cases "UserMapping.name z = nn")
    case True
    with assms(1) Some have "m = z\<lparr>UserMapping.color := nc\<rparr>"
      by (simp add: recolored_def)
    then show ?thesis by simp
  next
    case False
    with assms(1) Some have "m = z" by (simp add: recolored_def)
    with False assms(2) show ?thesis by simp
  qed
qed

lemma recolored_name:
  assumes "recolored nn nc x = Some m"
  shows "\<exists>z. x = Some z \<and> UserMapping.name z = UserMapping.name m"
  using assms by (cases x) (auto simp: recolored_def split: if_splits)

lemma map_of_recolorKey:
  "map_of (recolorKey dn c nm key) k =
    (if k = key then recolored dn c (map_of nm k) else map_of nm k)"
  by (cases "map_of nm key") (simp_all add: recolorKey_def recolored_def AList.update_conv')

lemma map_of_recolor_fold:
  "map_of (foldl (recolorKey dn c) nm ks) k =
    (if k \<in> set ks then recolored dn c (map_of nm k) else map_of nm k)"
  by (induction ks arbitrary: nm) (simp_all add: map_of_recolorKey)

lemma map_of_recolor_all:
  "map_of (foldl (recolorKey dn c) nm (objectKeys nm)) k = recolored dn c (map_of nm k)"
proof (cases "k \<in> set (map fst nm)")
  case True
  then show ?thesis by (simp only: map_of_recolor_fold set_objectKeys if_True)
next
  case False
  then have "map_of nm k = None" by (simp add: map_of_None_keys)
  with False show ?thesis by (simp only: map_of_recolor_fold set_objectKeys if_False recolored_None)
qed

lemma map_of_assignProp:
  "map_of (assignProp k v obj) k' =
    (if k = ''__proto__'' \<and> map_of obj k = None then map_of obj k'
     else if k' = k then Some v else map_of obj k')"
proof (cases "k = ''__proto__'' \<and> map_of obj k = None")
  case True
  then show ?thesis by (auto simp: assignProp_def)
next
  case False
  then have "assignProp k v obj = AList.update k v obj"
    by (auto simp: assignProp_def)
  with False show ?thesis by (auto simp: AList.update_conv')
qed

text \<open>
  After one step an entry is the new one, or the old one, recolored when the step
  propagates.
\<close>

lemma map_of_updateStep:
  "map_of (updateStep um nn nc nm orig) k = Some m \<Longrightarrow>
    m = \<lparr>UserMapping.name = nn, UserMapping.color = nc\<rparr>
    \<or> (displayNameOf um orig = nn \<and> recolored nn nc (map_of nm k) = Some m)
    \<or> (displayNameOf um orig \<noteq> nn \<and> map_of nm k = Some m)"
  by (auto simp: updateStep_def Let_def map_of_assignProp map_of_recolor_all split: if_splits)

lemma map_of_updateStep_other:
  "k \<noteq> orig \<Longrightarrow>
    map_of (updateStep um nn nc nm orig) k =
      (if displayNameOf um orig = nn then recolored nn nc (map_of nm k) else map_of nm k)"
  by (simp add: updateStep_def Let_def map_of_assignProp map_of_recolor_all)

lemma map_of_updateStep_same:
  "map_of nm orig \<noteq> None \<Longrightarrow>
    map_of (updateStep um nn nc nm orig) orig
      = Some \<lparr>UserMapping.name = nn, UserMapping.color = nc\<rparr>"
  by (auto simp: updateStep_def Let_def map_of_assignProp map_of_recolor_all recolored_def)

lemma updateStep_establishes:
  assumes "displayNameOf um orig = nn"
  shows "allRecolored nn nc (updateStep um nn nc nm orig)"
  unfolding allRecolored_def
proof (intro allI impI)
  fix k m
  assume a: "map_of (updateStep um nn nc nm orig) k = Some m \<and> UserMapping.name m = nn"
  from a map_of_updateStep [of um nn nc nm orig k m] assms
  show "UserMapping.color m = nc"
    by (auto dest: recolored_Some)
qed

lemma updateStep_preserves:
  assumes "allRecolored nn nc nm"
  shows "allRecolored nn nc (updateStep um nn nc nm orig)"
  unfolding allRecolored_def
proof (intro allI impI)
  fix k m
  assume a: "map_of (updateStep um nn nc nm orig) k = Some m \<and> UserMapping.name m = nn"
  from a map_of_updateStep [of um nn nc nm orig k m]
  consider "m = \<lparr>UserMapping.name = nn, UserMapping.color = nc\<rparr>"
    | "recolored nn nc (map_of nm k) = Some m" | "map_of nm k = Some m"
    by blast
  then show "UserMapping.color m = nc"
  proof cases
    case 1
    then show ?thesis by simp
  next
    case 2
    with a show ?thesis by (auto dest: recolored_Some)
  next
    case 3
    with a assms show ?thesis unfolding allRecolored_def by blast
  qed
qed

lemma fold_preserves:
  "allRecolored nn nc nm \<Longrightarrow> allRecolored nn nc (foldl (updateStep um nn nc) nm origs)"
  by (induction origs arbitrary: nm) (simp_all add: updateStep_preserves)

lemma fold_establishes:
  assumes "A \<in> set origs" "displayNameOf um A = nn"
  shows "allRecolored nn nc (foldl (updateStep um nn nc) nm origs)"
proof -
  from assms(1) obtain xs ys where "origs = xs @ A # ys" by (auto dest: split_list)
  then show ?thesis
    by (simp add: fold_preserves updateStep_establishes [OF assms(2)])
qed

lemma updateStep_names:
  assumes "namesNonEmpty nm" "nn \<noteq> []"
  shows "namesNonEmpty (updateStep um nn nc nm orig)"
  unfolding namesNonEmpty_def
proof (intro allI impI)
  fix k m
  assume a: "map_of (updateStep um nn nc nm orig) k = Some m"
  from map_of_updateStep [OF a]
  consider "m = \<lparr>UserMapping.name = nn, UserMapping.color = nc\<rparr>"
    | "recolored nn nc (map_of nm k) = Some m" | "map_of nm k = Some m"
    by blast
  then show "UserMapping.name m \<noteq> []"
  proof cases
    case 1
    with assms(2) show ?thesis by simp
  next
    case 2
    from recolored_name [OF 2] assms(1) show ?thesis
      unfolding namesNonEmpty_def by auto
  next
    case 3
    with assms(1) show ?thesis unfolding namesNonEmpty_def by blast
  qed
qed

lemma fold_names:
  "namesNonEmpty nm \<Longrightarrow> nn \<noteq> [] \<Longrightarrow> namesNonEmpty (foldl (updateStep um nn nc) nm origs)"
  by (induction origs arbitrary: nm) (simp_all add: updateStep_names)

lemma updateStep_keeps_name:
  assumes "map_of nm B = Some b" "UserMapping.name b = nn"
  shows "\<exists>m. map_of (updateStep um nn nc nm orig) B = Some m \<and> UserMapping.name m = nn"
proof (cases "B = orig")
  case True
  with assms(1) show ?thesis by (simp add: map_of_updateStep_same)
next
  case False
  with assms show ?thesis
    by (auto simp: map_of_updateStep_other recolored_def)
qed

lemma fold_keeps_name:
  "map_of nm B = Some b \<Longrightarrow> UserMapping.name b = nn \<Longrightarrow>
    \<exists>m. map_of (foldl (updateStep um nn nc) nm origs) B = Some m \<and> UserMapping.name m = nn"
proof (induction origs arbitrary: nm b)
  case Nil
  then show ?case by simp
next
  case (Cons orig origs)
  from updateStep_keeps_name [OF Cons.prems, of um nc orig] obtain m where
    "map_of (updateStep um nn nc nm orig) B = Some m" "UserMapping.name m = nn"
    by blast
  from Cons.IH [OF this] show ?case by simp
qed

lemma displayNameOf_own:
  "map_of nm k = Some m \<Longrightarrow> UserMapping.name m \<noteq> [] \<Longrightarrow> displayNameOf nm k = UserMapping.name m"
  by (simp add: displayNameOf_def getProp_def propName_def js_or_def)

text \<open>An entry of the result is a new one, or it has the name of the entry it comes from.\<close>

lemma updateStep_origin:
  assumes "map_of (updateStep um nn nc nm orig) k = Some m"
  shows "UserMapping.name m = nn \<or> (\<exists>z. map_of nm k = Some z \<and> UserMapping.name z = UserMapping.name m)"
proof -
  from map_of_updateStep [OF assms]
  consider "m = \<lparr>UserMapping.name = nn, UserMapping.color = nc\<rparr>"
    | "recolored nn nc (map_of nm k) = Some m" | "map_of nm k = Some m"
    by blast
  then show ?thesis
  proof cases
    case 1
    then show ?thesis by simp
  next
    case 2
    from recolored_name [OF 2] show ?thesis by blast
  next
    case 3
    then show ?thesis by blast
  qed
qed

lemma fold_origin:
  "map_of (foldl (updateStep um nn nc) nm origs) k = Some m \<Longrightarrow>
    UserMapping.name m = nn \<or> (\<exists>z. map_of nm k = Some z \<and> UserMapping.name z = UserMapping.name m)"
proof (induction origs arbitrary: nm)
  case Nil
  then show ?case by simp
next
  case (Cons orig origs)
  from Cons.prems have
    "map_of (foldl (updateStep um nn nc) (updateStep um nn nc nm orig) origs) k = Some m"
    by simp
  from Cons.IH [OF this] show ?case
  proof
    assume "UserMapping.name m = nn"
    then show ?thesis by blast
  next
    assume "\<exists>z. map_of (updateStep um nn nc nm orig) k = Some z
      \<and> UserMapping.name z = UserMapping.name m"
    then obtain z where z: "map_of (updateStep um nn nc nm orig) k = Some z"
      and zm: "UserMapping.name z = UserMapping.name m"
      by blast
    from updateStep_origin [OF z] zm show ?thesis by auto
  qed
qed

lemma displayNameOf_no_entry:
  "map_of nm k = None \<Longrightarrow> map_of nm' k = None \<Longrightarrow> displayNameOf nm k = displayNameOf nm' k"
  by (simp add: displayNameOf_def getProp_def)

text \<open>
  C8. No entry of the mapping state has an empty name and the new name is not empty: the
  rename form passes on a name only after \<open>newName.trim()\<close> has passed the test for the
  empty string. Let the keys \<open>A\<close> and \<open>B\<close> both have the display name \<open>X\<close> in this state,
  and let the mutator be called on it with a list of keys that contains \<open>A\<close>, the name \<open>X\<close>
  and the color \<open>C2\<close>. Then in the resulting state every entry whose display name is \<open>X\<close>
  has the color \<open>C2\<close>; the key \<open>B\<close> still has the display name \<open>X\<close>; and when \<open>B\<close> had an
  entry, it has one now, with the name \<open>X\<close> and the color \<open>C2\<close>.
\<close>

theorem recolor_propagation:
  assumes "\<forall>k m. map_of st k = Some m \<longrightarrow> UserMapping.name m \<noteq> []"
    and "X \<noteq> []"
    and "displayNameOf st A = X"
    and "displayNameOf st B = X"
    and "A \<in> set origNames"
  shows "(\<forall>k m. map_of (handleUpdateProject st st origNames X C2) k = Some m
              \<and> displayNameOf (handleUpdateProject st st origNames X C2) k = X
            \<longrightarrow> UserMapping.color m = C2)
    \<and> displayNameOf (handleUpdateProject st st origNames X C2) B = X
    \<and> (\<forall>b. map_of st B = Some b \<longrightarrow>
          (\<exists>m. map_of (handleUpdateProject st st origNames X C2) B = Some m
              \<and> UserMapping.name m = X \<and> UserMapping.color m = C2))"
proof -
  let ?res = "handleUpdateProject st st origNames X C2"
  note X = assms(2)
  from assms(1) have ne: "namesNonEmpty st" by (simp add: namesNonEmpty_def)
  have all: "allRecolored X C2 ?res"
    unfolding handleUpdateProject_def by (rule fold_establishes [OF assms(5) assms(3)])
  have names: "namesNonEmpty ?res"
    unfolding handleUpdateProject_def by (rule fold_names [OF ne X])
  have first: "UserMapping.color m = C2"
    if "map_of ?res k = Some m \<and> displayNameOf ?res k = X" for k m
  proof -
    from that names have "UserMapping.name m \<noteq> []" unfolding namesNonEmpty_def by blast
    with that displayNameOf_own [of ?res k m] have "UserMapping.name m = X" by auto
    with that all show ?thesis unfolding allRecolored_def by blast
  qed
  have third: "\<exists>m. map_of ?res B = Some m \<and> UserMapping.name m = X \<and> UserMapping.color m = C2"
    if b: "map_of st B = Some b" for b
  proof -
    from b assms(1) have "UserMapping.name b \<noteq> []" by blast
    with b assms(4) have nb: "UserMapping.name b = X" by (simp add: displayNameOf_own)
    from fold_keeps_name [OF b nb] obtain m where
      m: "map_of ?res B = Some m" "UserMapping.name m = X"
      unfolding handleUpdateProject_def by blast
    with all have "UserMapping.color m = C2" unfolding allRecolored_def by blast
    with m show ?thesis by blast
  qed
  have second: "displayNameOf ?res B = X"
  proof (cases "map_of st B")
    case (Some b)
    from third [OF Some] obtain m where "map_of ?res B = Some m" "UserMapping.name m = X"
      by blast
    with X show ?thesis by (simp add: displayNameOf_own)
  next
    case None
    show ?thesis
    proof (cases "map_of ?res B")
      case (Some m)
      then have "map_of (foldl (updateStep st X C2) st origNames) B = Some m"
        by (simp add: handleUpdateProject_def)
      from fold_origin [OF this] None have "UserMapping.name m = X" by auto
      with Some X show ?thesis by (simp add: displayNameOf_own)
    next
      case none: None
      from displayNameOf_no_entry [OF none None] assms(4) show ?thesis by simp
    qed
  qed
  from first second third show ?thesis by blast
qed

theorem recolor_propagation_witness:
  "\<exists>m. map_of (handleUpdateProject
      [(''A'', \<lparr>UserMapping.name = ''X'', UserMapping.color = ''#111111''\<rparr>),
       (''B'', \<lparr>UserMapping.name = ''X'', UserMapping.color = ''#111111''\<rparr>)]
      [(''A'', \<lparr>UserMapping.name = ''X'', UserMapping.color = ''#111111''\<rparr>),
       (''B'', \<lparr>UserMapping.name = ''X'', UserMapping.color = ''#111111''\<rparr>)]
      [''A''] ''X'' ''#222222'') ''B'' = Some m
    \<and> UserMapping.name m = ''X'' \<and> UserMapping.color m = ''#222222''"
proof -
  let ?e = "\<lparr>UserMapping.name = ''X'', UserMapping.color = ''#111111''\<rparr>"
  let ?st = "[(''A'', ?e), (''B'', ?e)]"
  have h1: "\<forall>k m. map_of ?st k = Some m \<longrightarrow> UserMapping.name m \<noteq> []"
    by (auto split: if_splits)
  have h2: "''X'' \<noteq> []" by simp
  have h3: "displayNameOf ?st ''A'' = ''X''" by code_simp
  have h4: "displayNameOf ?st ''B'' = ''X''" by code_simp
  have h5: "''A'' \<in> set [''A'']" by simp
  have h6: "map_of ?st ''B'' = Some ?e" by simp
  from recolor_propagation [OF h1 h2 h3 h4 h5, THEN conjunct2, THEN conjunct2, rule_format, OF h6]
  show ?thesis .
qed

subsection \<open>Empty fields of a mapping entry\<close>

lemma forEachE_agree:
  "(\<And>a x. x \<in> set xs \<Longrightarrow> f a x = g a x) \<Longrightarrow> forEachE f a xs = forEachE g a xs"
proof (induction xs arbitrary: a)
  case Nil
  show ?case by simp
next
  case (Cons x xs)
  have "f a x = g a x" by (rule Cons.prems) simp
  moreover have "forEachE f a' xs = forEachE g a' xs" for a'
    by (rule Cons.IH) (rule Cons.prems, simp)
  ultimately show ?case by (simp split: sum.splits)
qed

lemma displayStep_agree:
  assumes "displayNameOf um (fst e) = displayNameOf um' (fst e)"
    and "displayColorOf um (fst e) (snd e) = displayColorOf um' (fst e) (snd e)"
  shows "displayStep um acc e = displayStep um' acc e"
  using assms by (simp add: displayStep_def)

lemma aggregatedByDisplay_agree:
  assumes "\<And>e. e \<in> set bo \<Longrightarrow> displayNameOf um (fst e) = displayNameOf um' (fst e)"
    and "\<And>e. e \<in> set bo \<Longrightarrow>
      displayColorOf um (fst e) (snd e) = displayColorOf um' (fst e) (snd e)"
  shows "aggregatedByDisplay um bo = aggregatedByDisplay um' bo"
  unfolding aggregatedByDisplay_def
proof (rule forEachE_agree)
  fix a x
  assume "x \<in> set (objectEntries bo)"
  then have x: "x \<in> set bo" by (simp only: set_objectEntries)
  show "displayStep um a x = displayStep um' a x"
    by (rule displayStep_agree) (rule assms(1) [OF x], rule assms(2) [OF x])
qed

lemma assignColors_agree:
  fixes ps :: "'n Project list"
  assumes "\<And>p :: 'n Project. needsColor um p = needsColor um' p"
  shows "assignColors um U i ps = assignColors um' U i ps"
  by (induction ps arbitrary: U i) (simp_all add: Let_def assms)

lemma map_of_delete: "map_of (AList.delete k al) k' = (if k' = k then None else map_of al k')"
  by (simp add: AList.delete_conv')

text \<open>
  C10. Let the mapping have an entry for the key \<open>k\<close>. If the name of the entry is the empty
  string, the engine's output is the one it computes when the entry names the key itself:
  the key is its own display name. If the color of the entry is the empty string, the
  Projects before Stage 5 are those computed when the entry has the Stage-3 carried color of
  \<open>k\<close> as its color, and Stage 5 runs as it does when \<open>k\<close> has no entry at all, so a Project
  whose first contributing key is \<open>k\<close> and whose color is the sentinel is still given a
  palette color.
\<close>

theorem empty_fields_act_as_absent:
  fixes imgs :: "('n::{zero,plus}) CalendarImage list"
  assumes "map_of um k = Some e"
  shows "(UserMapping.name e = [] \<longrightarrow>
        displayProjects lc imgs um ign rules =
        displayProjects lc imgs (AList.update k (e\<lparr>UserMapping.name := k\<rparr>) um) ign rules)
    \<and> (UserMapping.color e = [] \<longrightarrow>
        (\<forall>data. map_of (aggregatedByOriginal ign (processedEvents lc imgs rules)) k = Some data \<longrightarrow>
           finalProjects lc imgs um ign rules =
           finalProjects lc imgs
             (AList.update k (e\<lparr>UserMapping.color := OriginalAgg.color data\<rparr>) um) ign rules)
        \<and> displayProjects lc imgs um ign rules =
            (case finalProjects lc imgs um ign rules of
               Inl err \<Rightarrow> Inl err
             | Inr ps \<Rightarrow> Inr (assignColors (AList.delete k um) (set (map color ps)) 0 ps)))"
proof (intro conjI impI allI)
  assume name: "UserMapping.name e = []"
  let ?um = "AList.update k (e\<lparr>UserMapping.name := k\<rparr>) um"
  have dn: "displayNameOf um k' = displayNameOf ?um k'" for k'
    using assms name
    by (simp add: displayNameOf_def getProp_def propName_def js_or_def AList.update_conv')
  have dc: "displayColorOf um k' d = displayColorOf ?um k' d" for k' and d :: "'n OriginalAgg"
    using assms
    by (simp add: displayColorOf_def getProp_def propColor_def AList.update_conv')
  have nc: "needsColor um p = needsColor ?um p" for p :: "'n Project"
    using assms by (simp add: needsColor_def getProp_def propColor_def AList.update_conv')
  have "aggregatedByDisplay um bo = aggregatedByDisplay ?um bo" for bo :: "'n OriginalAgg dict"
    by (rule aggregatedByDisplay_agree) (rule dn, rule dc)
  then have "finalProjects lc imgs um ign rules = finalProjects lc imgs ?um ign rules"
    by (simp add: finalProjects_def)
  then show "displayProjects lc imgs um ign rules = displayProjects lc imgs ?um ign rules"
    by (simp add: displayProjects_def assignColors_agree [OF nc] split: sum.splits)
next
  fix data
  assume col: "UserMapping.color e = []"
    and look: "map_of (aggregatedByOriginal ign (processedEvents lc imgs rules)) k = Some data"
  let ?bo = "aggregatedByOriginal ign (processedEvents lc imgs rules)"
  let ?um = "AList.update k (e\<lparr>UserMapping.color := OriginalAgg.color data\<rparr>) um"
  have dn: "displayNameOf um k' = displayNameOf ?um k'" for k'
    using assms
    by (simp add: displayNameOf_def getProp_def propName_def AList.update_conv')
  have dc: "displayColorOf um (fst x) (snd x) = displayColorOf ?um (fst x) (snd x)"
    if "x \<in> set ?bo" for x
  proof (cases "fst x = k")
    case True
    from that have "(fst x, snd x) \<in> set ?bo" by simp
    then have "map_of ?bo (fst x) = Some (snd x)"
      using distinct_keys_aggregatedByOriginal [of ign "processedEvents lc imgs rules"]
      by (rule map_of_is_SomeI [rotated])
    with look True have "snd x = data" by simp
    with True assms col show ?thesis
      by (simp add: displayColorOf_def getProp_def propColor_def js_or_def AList.update_conv')
  next
    case False
    then show ?thesis
      by (simp add: displayColorOf_def getProp_def propColor_def AList.update_conv')
  qed
  have "aggregatedByDisplay um ?bo = aggregatedByDisplay ?um ?bo"
    by (rule aggregatedByDisplay_agree) (rule dn, rule dc)
  then show "finalProjects lc imgs um ign rules = finalProjects lc imgs ?um ign rules"
    by (simp add: finalProjects_def)
next
  assume col: "UserMapping.color e = []"
  have nc: "needsColor um p = needsColor (AList.delete k um) p" for p :: "'n Project"
    using assms col
    by (simp add: needsColor_def getProp_def propColor_def js_not_def map_of_delete)
  show "displayProjects lc imgs um ign rules =
      (case finalProjects lc imgs um ign rules of
         Inl err \<Rightarrow> Inl err
       | Inr ps \<Rightarrow> Inr (assignColors (AList.delete k um) (set (map color ps)) 0 ps))"
    by (simp add: displayProjects_def assignColors_agree [OF nc] split: sum.splits)
qed

theorem empty_fields_act_as_absent_witness:
  "displayProjects asciiLowerCase
      [\<lparr>image_id = ''1'', base64 = [], events =
          [\<lparr>title = ''Gym'', durationHours = 1::int, AnalyzedEvent.color = ''#808080''\<rparr>]\<rparr>]
      [(''Gym'', \<lparr>UserMapping.name = [], UserMapping.color = []\<rparr>)] [] []
    = displayProjects asciiLowerCase
      [\<lparr>image_id = ''1'', base64 = [], events =
          [\<lparr>title = ''Gym'', durationHours = 1::int, AnalyzedEvent.color = ''#808080''\<rparr>]\<rparr>]
      [(''Gym'', \<lparr>UserMapping.name = ''Gym'', UserMapping.color = []\<rparr>)] [] []
   \<and> finalProjects asciiLowerCase
      [\<lparr>image_id = ''1'', base64 = [], events =
          [\<lparr>title = ''Gym'', durationHours = 1::int, AnalyzedEvent.color = ''#808080''\<rparr>]\<rparr>]
      [(''Gym'', \<lparr>UserMapping.name = [], UserMapping.color = []\<rparr>)] [] []
    = finalProjects asciiLowerCase
      [\<lparr>image_id = ''1'', base64 = [], events =
          [\<lparr>title = ''Gym'', durationHours = 1::int, AnalyzedEvent.color = ''#808080''\<rparr>]\<rparr>]
      [(''Gym'', \<lparr>UserMapping.name = [], UserMapping.color = ''#808080''\<rparr>)] [] []
   \<and> displayProjects asciiLowerCase
      [\<lparr>image_id = ''1'', base64 = [], events =
          [\<lparr>title = ''Gym'', durationHours = 1::int, AnalyzedEvent.color = ''#808080''\<rparr>]\<rparr>]
      [(''Gym'', \<lparr>UserMapping.name = [], UserMapping.color = []\<rparr>)] [] []
    = Inr [\<lparr>name = ''Gym'', duration = 1, color = ''#0088FE'', originalNames = [''Gym'']\<rparr>]"
proof -
  let ?imgs = "[\<lparr>image_id = ''1'', base64 = [], events =
          [\<lparr>title = ''Gym'', durationHours = 1::int, AnalyzedEvent.color = ''#808080''\<rparr>]\<rparr>]"
  let ?e = "\<lparr>UserMapping.name = [], UserMapping.color = []\<rparr>"
  let ?um = "[(''Gym'', ?e)]"
  have h: "map_of ?um ''Gym'' = Some ?e" by simp
  have hn: "UserMapping.name ?e = []" by simp
  have hc: "UserMapping.color ?e = []" by simp
  have hd: "map_of (aggregatedByOriginal [] (processedEvents asciiLowerCase ?imgs [])) ''Gym''
      = Some \<lparr>OriginalAgg.duration = 1, OriginalAgg.color = ''#808080''\<rparr>"
    by code_simp
  have fp: "finalProjects asciiLowerCase ?imgs ?um [] [] =
      Inr [\<lparr>name = ''Gym'', duration = 1, color = ''#808080'', originalNames = [''Gym'']\<rparr>]"
    by code_simp
  have u1: "AList.update ''Gym'' (?e\<lparr>UserMapping.name := ''Gym''\<rparr>) ?um
      = [(''Gym'', \<lparr>UserMapping.name = ''Gym'', UserMapping.color = []\<rparr>)]"
    by simp
  have u2: "AList.update ''Gym''
        (?e\<lparr>UserMapping.color :=
              OriginalAgg.color \<lparr>OriginalAgg.duration = 1::int, OriginalAgg.color = ''#808080''\<rparr>\<rparr>) ?um
      = [(''Gym'', \<lparr>UserMapping.name = [], UserMapping.color = ''#808080''\<rparr>)]"
    by simp
  have u3: "(case (Inr [\<lparr>name = ''Gym'', duration = 1::int, color = ''#808080'',
                         originalNames = [''Gym'']\<rparr>] :: error + int Project list) of
               Inl err \<Rightarrow> Inl err
             | Inr ps \<Rightarrow> Inr (assignColors (AList.delete ''Gym'' ?um) (set (map color ps)) 0 ps))
      = Inr [\<lparr>name = ''Gym'', duration = 1, color = ''#0088FE'', originalNames = [''Gym'']\<rparr>]"
    by code_simp
  note inst = empty_fields_act_as_absent [OF h, of asciiLowerCase ?imgs "[]" "[]"]
  note part1 = inst [THEN conjunct1, THEN mp, OF hn]
  note part2 = inst [THEN conjunct2, THEN mp, OF hc, THEN conjunct1, rule_format, OF hd]
  note part3 = inst [THEN conjunct2, THEN mp, OF hc, THEN conjunct2]
  from part1 have c1: "displayProjects asciiLowerCase ?imgs ?um [] [] =
      displayProjects asciiLowerCase ?imgs
        [(''Gym'', \<lparr>UserMapping.name = ''Gym'', UserMapping.color = []\<rparr>)] [] []"
    unfolding u1 .
  from part2 have c2: "finalProjects asciiLowerCase ?imgs ?um [] [] =
      finalProjects asciiLowerCase ?imgs
        [(''Gym'', \<lparr>UserMapping.name = [], UserMapping.color = ''#808080''\<rparr>)] [] []"
    unfolding u2 .
  from part3 have c3: "displayProjects asciiLowerCase ?imgs ?um [] [] =
      Inr [\<lparr>name = ''Gym'', duration = 1, color = ''#0088FE'', originalNames = [''Gym'']\<rparr>]"
    unfolding fp u3 .
  from c1 c2 c3 show ?thesis by (intro conjI)
qed

end
